theory Spec2Isabelle
  imports Complex_Main "HOL-Library.Word"
begin

section \<open>Values, failures and vectors\<close>

text \<open>
  The program is \<^verbatim>\<open>coloredlids/instruments/moos.cpp\<close>. In the smoother, the
  acquisition and the sleep, its \<^verbatim>\<open>double\<close> samples are real numbers: sums, products
  and quotients are exact, and there is no infinity and no NaN. In the transmission and
  in the integration times, where the values that the arithmetic yields are the matter,
  the arithmetic is a parameter (see below). Its \<^verbatim>\<open>unsigned\<close> counters are 32-bit
  words, so that \<^verbatim>\<open>n - boxcar\<close> wraps around as it does in the program.
\<close>

type_synonym double = real
type_synonym unsigned = "32 word"

text \<open>
  How a call can end other than by returning: \<^verbatim>\<open>exit(status)\<close> after an error code
  was printed, a failed \<^verbatim>\<open>assert\<close>, or undefined behaviour (an element access outside
  the vector, a conversion whose value the target type cannot hold).
\<close>

datatype failure =
    Exited int int  \<comment> \<open>the error code printed, the exit status\<close>
  | AssertionFailed
  | Undefined

type_synonym 'a outcome = "failure + 'a"

text \<open>Reading \<^verbatim>\<open>X[i]\<close>: outside the vector the behaviour is undefined.\<close>

definition elem_at :: "'a list \<Rightarrow> nat \<Rightarrow> 'a outcome" where
  "elem_at X i = (if i < length X then Inr (X ! i) else Inl Undefined)"

text \<open>Writing \<^verbatim>\<open>X[i] = v\<close>.\<close>

definition store_at :: "'a list \<Rightarrow> nat \<Rightarrow> 'a \<Rightarrow> 'a list outcome" where
  "store_at X i v = (if i < length X then Inr (X[i := v]) else Inl Undefined)"

section \<open>The signal smoother: \<^verbatim>\<open>average_vector\<close>\<close>

text \<open>
  The inner loop of the centre part,
  \<^verbatim>\<open>for (unsigned j = 1; j <= boxcar; j++) average += X[i+j] + X[i-j];\<close>
  With \<^verbatim>\<open>boxcar = UINT_MAX\<close> its condition never fails, so the loop is a partial
  function: \<open>None\<close> is "does not return".
\<close>

partial_function (option) window_loop ::
  "double list \<Rightarrow> unsigned \<Rightarrow> unsigned \<Rightarrow> unsigned \<Rightarrow> double \<Rightarrow> double outcome option" where
  "window_loop X i boxcar j average =
     (if j \<le> boxcar
      then (case elem_at X (unat (i + j)) of
              Inl e \<Rightarrow> Some (Inl e)
            | Inr a \<Rightarrow>
                (case elem_at X (unat (i - j)) of
                   Inl e \<Rightarrow> Some (Inl e)
                 | Inr b \<Rightarrow> window_loop X i boxcar (j + 1) (average + (a + b))))
      else Some (Inr average))"

text \<open>
  The centre part, \<^verbatim>\<open>for (i = boxcar; i < n - boxcar; i++)\<close>: the window is summed
  from \<open>X\<close> as it is at that moment and the mean is written back into \<open>X\<close>.
\<close>

partial_function (option) center_loop ::
  "unsigned \<Rightarrow> unsigned \<Rightarrow> unsigned \<Rightarrow> double list \<Rightarrow> double list outcome option" where
  "center_loop i n boxcar X =
     (if i < n - boxcar
      then (case elem_at X (unat i) of
              Inl e \<Rightarrow> Some (Inl e)
            | Inr x \<Rightarrow>
                (case window_loop X i boxcar 1 x of
                   None \<Rightarrow> None
                 | Some (Inl e) \<Rightarrow> Some (Inl e)
                 | Some (Inr average) \<Rightarrow>
                     (case store_at X (unat i) (average / real (unat (1 + 2 * boxcar))) of
                        Inl e \<Rightarrow> Some (Inl e)
                      | Inr X' \<Rightarrow> center_loop (i + 1) n boxcar X')))
      else Some (Inr X))"

text \<open>\<^verbatim>\<open>for (; i < stop; i++) average += X[i];\<close>\<close>

function sum_loop :: "double list \<Rightarrow> unsigned \<Rightarrow> unsigned \<Rightarrow> double \<Rightarrow> double outcome" where
  "sum_loop X i stop average =
     (if i < stop
      then (case elem_at X (unat i) of
              Inl e \<Rightarrow> Inl e
            | Inr x \<Rightarrow> sum_loop X (i + 1) stop (average + x))
      else Inr average)"
  by pat_completeness auto

lemma unat_succ_below: "(i :: 'a::len word) < stop \<Longrightarrow> unat (i + 1) = Suc (unat i)"
proof -
  assume less: "i < stop"
  have "1 + i \<noteq> 0"
  proof
    assume "1 + i = 0"
    then have "i = - 1" by (simp add: add_eq_0_iff)
    with less show False by simp
  qed
  then show ?thesis using unatSuc [of i] by (simp add: add.commute)
qed

lemma loop_measure_decreases:
  "(i :: 'a::len word) < stop \<Longrightarrow> unat stop - unat (i + 1) < unat stop - unat i"
  by (simp add: unat_succ_below word_less_nat_alt diff_less_mono2)

termination sum_loop
  by (relation "measure (\<lambda>(X, i, stop, average). unat stop - unat i)")
     (simp_all add: loop_measure_decreases)

text \<open>\<^verbatim>\<open>for (; i < stop; i++) X[i] = average;\<close>\<close>

function fill_loop :: "unsigned \<Rightarrow> unsigned \<Rightarrow> double \<Rightarrow> double list \<Rightarrow> double list outcome" where
  "fill_loop i stop average X =
     (if i < stop
      then (case store_at X (unat i) average of
              Inl e \<Rightarrow> Inl e
            | Inr X' \<Rightarrow> fill_loop (i + 1) stop average X')
      else Inr X)"
  by pat_completeness auto

termination fill_loop
  by (relation "measure (\<lambda>(i, stop, average, X). unat stop - unat i)")
     (simp_all add: loop_measure_decreases)

declare sum_loop.simps [simp del] fill_loop.simps [simp del]

text \<open>One end of the vector: the mean of \<open>X[first..stop-1]\<close>, written to each of them.\<close>

definition plateau :: "unsigned \<Rightarrow> unsigned \<Rightarrow> unsigned \<Rightarrow> double list \<Rightarrow> double list outcome" where
  "plateau first stop boxcar X =
     (case sum_loop X first stop 0 of
        Inl e \<Rightarrow> Inl e
      | Inr average \<Rightarrow> fill_loop first stop (average / real (unat boxcar)) X)"

text \<open>
  \<^verbatim>\<open>bool average_vector(vector<double> & X, unsigned boxcar)\<close>: the value returned and
  the vector as the call leaves it. \<^verbatim>\<open>unsigned n = X.size()\<close> keeps the low 32 bits.
\<close>

definition average_vector :: "double list \<Rightarrow> unsigned \<Rightarrow> (bool \<times> double list) outcome option" where
  "average_vector X boxcar =
     (if X = [] \<or> boxcar \<le> 0 then Some (Inr (False, X))
      else
        let n = word_of_nat (length X) in
        (case center_loop boxcar n boxcar X of
           None \<Rightarrow> None
         | Some (Inl e) \<Rightarrow> Some (Inl e)
         | Some (Inr X1) \<Rightarrow>
             (case plateau 0 boxcar boxcar X1 of
                Inl e \<Rightarrow> Some (Inl e)
              | Inr X2 \<Rightarrow>
                  (case plateau (n - boxcar) n boxcar X2 of
                     Inl e \<Rightarrow> Some (Inl e)
                   | Inr X3 \<Rightarrow> Some (Inr (True, X3))))))"

section \<open>Driver errors and the identity of a device\<close>

text \<open>
  \<^verbatim>\<open>bool check_for_error(int error)\<close>: a non-zero code is printed with the driver's text
  for it, and the process ends with \<^verbatim>\<open>exit(1)\<close>.
\<close>

definition check_for_error :: "int \<Rightarrow> bool outcome" where
  "check_for_error error = (if error \<noteq> 0 then Inl (Exited error 1) else Inr True)"

text \<open>
  The vendor driver (SeaBreeze) is not part of the repository, so what it answers is a
  parameter. The reply to an identity query (\<^verbatim>\<open>seabreeze_get_model\<close>,
  \<^verbatim>\<open>seabreeze_get_serial_number\<close>) is the error code the driver stores through
  \<^verbatim>\<open>&error\<close> and the text it leaves in the character buffer.
\<close>

type_synonym identity_reply = "int \<times> string"

text \<open>\<^verbatim>\<open>string Device::model_name()\<close>\<close>

definition model_name :: "identity_reply \<Rightarrow> string outcome" where
  "model_name reply =
     (let (error, buffer) = reply in
      case check_for_error error of
        Inl e \<Rightarrow> Inl e
      | Inr _ \<Rightarrow> if error \<noteq> 0 then Inr ''unknown'' else Inr buffer)"

text \<open>\<^verbatim>\<open>string Device::serial_number()\<close>\<close>

definition serial_number :: "identity_reply \<Rightarrow> string outcome" where
  "serial_number reply =
     (let (error, buffer) = reply in
      case check_for_error error of
        Inl e \<Rightarrow> Inl e
      | Inr _ \<Rightarrow> if error \<noteq> 0 then Inr ''unknown'' else Inr buffer)"

section \<open>Repairing and resizing buffers\<close>

text \<open>
  The loop of \<^verbatim>\<open>repair_false_pixels\<close>,
  \<^verbatim>\<open>for (int i = 0; i < i_correct; i++) if (buffer[i] < 0.5 * corr || buffer[i] > 2 * corr) buffer[i] = corr;\<close>
\<close>

function repair_loop :: "nat \<Rightarrow> nat \<Rightarrow> double \<Rightarrow> double list \<Rightarrow> double list outcome" where
  "repair_loop i i_correct corr buffer =
     (if i < i_correct
      then (case elem_at buffer i of
              Inl e \<Rightarrow> Inl e
            | Inr b \<Rightarrow>
                if b < 0.5 * corr \<or> b > 2 * corr
                then (case store_at buffer i corr of
                        Inl e \<Rightarrow> Inl e
                      | Inr buffer' \<Rightarrow> repair_loop (i + 1) i_correct corr buffer')
                else repair_loop (i + 1) i_correct corr buffer)
      else Inr buffer)"
  by pat_completeness auto

termination repair_loop
  by (relation "measure (\<lambda>(i, i_correct, corr, buffer). i_correct - i)") simp_all

declare repair_loop.simps [simp del]

text \<open>
  \<^verbatim>\<open>bool Device::repair_false_pixels(vector<double> & buffer, bool silent)\<close>: the value
  returned and the buffer as the call leaves it. The first argument is the driver's reply
  to the serial-number query; \<^verbatim>\<open>silent\<close> only switches a message off and is left out.
\<close>

definition repair_false_pixels :: "identity_reply \<Rightarrow> double list \<Rightarrow> (bool \<times> double list) outcome" where
  "repair_false_pixels reply buffer =
     (case serial_number reply of
        Inl e \<Rightarrow> Inl e
      | Inr serial \<Rightarrow>
          if serial = ''FLMS03141''
          then (let i_correct = 2 in
                case elem_at buffer i_correct of
                  Inl e \<Rightarrow> Inl e
                | Inr corr \<Rightarrow>
                    (case repair_loop 0 i_correct corr buffer of
                       Inl e \<Rightarrow> Inl e
                     | Inr buffer' \<Rightarrow> Inr (True, buffer')))
          else Inr (True, buffer))"

text \<open>\<^verbatim>\<open>X.resize(n, v)\<close>: the first \<open>n\<close> elements are kept, new ones are \<open>v\<close>.\<close>

definition resize :: "'a list \<Rightarrow> nat \<Rightarrow> 'a \<Rightarrow> 'a list" where
  "resize X n v = take n X @ replicate (n - length X) v"

text \<open>
  A loop \<^verbatim>\<open>for (pixel = 0; pixel < pixels; pixel++) X[pixel] = f(pixel, X[pixel]);\<close> over
  a vector that has \<open>pixels\<close> elements, as every vector of \<^verbatim>\<open>read_spectrum\<close> has once
  its buffers are prepared.
\<close>

definition for_pixels :: "nat \<Rightarrow> (nat \<Rightarrow> double \<Rightarrow> double) \<Rightarrow> double list \<Rightarrow> double list" where
  "for_pixels pixels f X = fold (\<lambda>pixel X. X[pixel := f pixel (X ! pixel)]) [0..<pixels] X"

text \<open>
  Modelled from the spec: the driver's \<^verbatim>\<open>seabreeze_get_formatted_spectrum\<close> is not part of
  the repository. Its reply to one call is the error code it stores through \<^verbatim>\<open>&error\<close>
  and the intensity it delivers for each pixel (\<^verbatim>\<open>get_intensities(handle, count)\<close> of the
  driver interface hands back a sequence of \<open>count\<close> values); the call overwrites the
  \<open>pixels\<close> elements of the buffer it is given.
\<close>

type_synonym spectrum_reply = "int \<times> (nat \<Rightarrow> double)"

definition driver_fill :: "(nat \<Rightarrow> double) \<Rightarrow> nat \<Rightarrow> double list \<Rightarrow> double list" where
  "driver_fill intensity pixels buffer = for_pixels pixels (\<lambda>pixel _. intensity pixel) buffer"

section \<open>The double arithmetic of the platform\<close>

text \<open>
  What the difference, the quotient or the product of two \<^verbatim>\<open>double\<close>s is, what
  \<^verbatim>\<open>unsigned(x)\<close> gives and what \<^verbatim>\<open>atof\<close> reads is decided by the processor and by
  the C library, not by the program. In \<^verbatim>\<open>calc_transmission\<close> and in the integration
  times of \<^verbatim>\<open>Meter::pre\<close> this arithmetic is a parameter: a type \<open>'d\<close> of values with
  the operations that the program applies to them.
\<close>

record 'd arithmetic =
  sub_double :: "'d \<Rightarrow> 'd \<Rightarrow> 'd"  \<comment> \<open>\<^verbatim>\<open>x - y\<close>\<close>
  div_double :: "'d \<Rightarrow> 'd \<Rightarrow> 'd"  \<comment> \<open>\<^verbatim>\<open>x / y\<close>\<close>
  mul_double :: "'d \<Rightarrow> 'd \<Rightarrow> 'd"  \<comment> \<open>\<^verbatim>\<open>x * y\<close>\<close>
  double_1e6 :: 'd  \<comment> \<open>the literal \<^verbatim>\<open>1e6\<close>\<close>
  unsigned_of_double :: "'d \<Rightarrow> unsigned outcome"  \<comment> \<open>\<^verbatim>\<open>unsigned(x)\<close>\<close>
  atof :: "string \<Rightarrow> 'd"  \<comment> \<open>\<^verbatim>\<open>atof(s)\<close>\<close>

text \<open>The fraction of a number dropped, as a conversion to an integer type drops it.\<close>

definition trunc :: "real \<Rightarrow> int" where
  "trunc x = (if 0 \<le> x then \<lfloor>x\<rfloor> else \<lceil>x\<rceil>)"

subsection \<open>IEEE 754 binary64\<close>

text \<open>
  The arithmetic of the machines the program is built for, for the places where a
  concrete value is wanted: the binary64 format of IEEE 754 with rounding to nearest,
  ties to even, and \<^verbatim>\<open>atof\<close> as the C standard describes \<^verbatim>\<open>strtod\<close> in the C locale,
  correctly rounded. A value is a zero with its sign, a finite number other than zero, an
  infinity with its sign, or NaN; the sign is \<open>True\<close> for minus.
\<close>

datatype binary64 = Zero bool | Finite real | Infinity bool | NaN

text \<open>The number of binary digits of a natural number.\<close>

function bit_length :: "nat \<Rightarrow> nat" where
  "bit_length n = (if n = 0 then 0 else bit_length (n div 2) + 1)"
  by pat_completeness auto

termination bit_length
  by (relation "measure (\<lambda>n. n)") simp_all

declare bit_length.simps [simp del]

text \<open>The exponent \<open>e\<close> with \<open>2^e \<le> x < 2^(e+1)\<close>, for \<open>x > 0\<close>.\<close>

definition floor_log2 :: "real \<Rightarrow> int" where
  "floor_log2 x =
     (if 1 \<le> x then int (bit_length (nat \<lfloor>x\<rfloor>)) - 1
      else - int (bit_length (nat (\<lceil>1 / x\<rceil> - 1))))"

text \<open>
  The multiple of the unit in the last place nearest to \<open>x > 0\<close>, the even one of two
  that are equally near. The unit is \<open>2^(e-52)\<close> for a normal number and \<open>2^-1074\<close> below
  \<open>2^-1022\<close>.
\<close>

definition round_magnitude :: "real \<Rightarrow> real" where
  "round_magnitude x =
     (let ulp = 2 powi (max (floor_log2 x) (- 1022) - 52);
          n = \<lfloor>x / ulp\<rfloor>;
          rest = x / ulp - of_int n
      in (if rest < 1 / 2 \<or> (rest = 1 / 2 \<and> even n) then of_int n else of_int n + 1) * ulp)"

text \<open>The binary64 value of the number with the given sign and magnitude \<open>x \<ge> 0\<close>.\<close>

definition round_binary64 :: "bool \<Rightarrow> real \<Rightarrow> binary64" where
  "round_binary64 negative x =
     (if x = 0 then Zero negative
      else let y = round_magnitude x
           in if y = 0 then Zero negative
              else if 2 ^ 1024 \<le> y then Infinity negative
              else Finite (if negative then - y else y))"

fun is_negative :: "binary64 \<Rightarrow> bool" where
  "is_negative (Zero s) = s"
| "is_negative (Finite x) = (x < 0)"
| "is_negative (Infinity s) = s"
| "is_negative NaN = False"

fun ieee_minus :: "binary64 \<Rightarrow> binary64 \<Rightarrow> binary64" where
  "ieee_minus NaN y = NaN"
| "ieee_minus x NaN = NaN"
| "ieee_minus (Infinity s) (Infinity t) = (if s = t then NaN else Infinity s)"
| "ieee_minus (Infinity s) y = Infinity s"
| "ieee_minus x (Infinity t) = Infinity (\<not> t)"
| "ieee_minus (Zero s) (Zero t) = Zero (s \<and> \<not> t)"
| "ieee_minus (Zero s) (Finite y) = Finite (- y)"
| "ieee_minus (Finite x) (Zero t) = Finite x"
| "ieee_minus (Finite x) (Finite y) =
     (if x = y then Zero False else round_binary64 (x < y) \<bar>x - y\<bar>)"

fun ieee_divide :: "binary64 \<Rightarrow> binary64 \<Rightarrow> binary64" where
  "ieee_divide NaN y = NaN"
| "ieee_divide x NaN = NaN"
| "ieee_divide (Infinity s) (Infinity t) = NaN"
| "ieee_divide (Infinity s) y = Infinity (s \<noteq> is_negative y)"
| "ieee_divide x (Infinity t) = Zero (is_negative x \<noteq> t)"
| "ieee_divide (Zero s) (Zero t) = NaN"
| "ieee_divide (Finite x) (Zero t) = Infinity ((x < 0) \<noteq> t)"
| "ieee_divide (Zero s) (Finite y) = Zero (s \<noteq> (y < 0))"
| "ieee_divide (Finite x) (Finite y) = round_binary64 ((x < 0) \<noteq> (y < 0)) \<bar>x / y\<bar>"

fun ieee_times :: "binary64 \<Rightarrow> binary64 \<Rightarrow> binary64" where
  "ieee_times NaN y = NaN"
| "ieee_times x NaN = NaN"
| "ieee_times (Infinity s) (Zero t) = NaN"
| "ieee_times (Zero s) (Infinity t) = NaN"
| "ieee_times (Infinity s) y = Infinity (s \<noteq> is_negative y)"
| "ieee_times x (Infinity t) = Infinity (is_negative x \<noteq> t)"
| "ieee_times (Zero s) y = Zero (s \<noteq> is_negative y)"
| "ieee_times x (Zero t) = Zero (is_negative x \<noteq> t)"
| "ieee_times (Finite x) (Finite y) = round_binary64 ((x < 0) \<noteq> (y < 0)) \<bar>x * y\<bar>"

text \<open>
  The conversion \<^verbatim>\<open>unsigned(x)\<close>: the fraction is dropped; the behaviour is undefined
  when the result is not a value of the type.
\<close>

fun ieee_to_unsigned :: "binary64 \<Rightarrow> unsigned outcome" where
  "ieee_to_unsigned (Zero s) = Inr 0"
| "ieee_to_unsigned (Finite x) =
     (if 0 \<le> trunc x \<and> trunc x < 2 ^ 32 then Inr (word_of_int (trunc x)) else Inl Undefined)"
| "ieee_to_unsigned (Infinity s) = Inl Undefined"
| "ieee_to_unsigned NaN = Inl Undefined"

text \<open>
  \<^verbatim>\<open>atof\<close> reads white space, a sign, and then the longest of: \<^verbatim>\<open>inf\<close> or
  \<^verbatim>\<open>nan\<close> in any case; \<^verbatim>\<open>0x\<close> and hexadecimal digits with an optional point and an
  optional binary exponent \<^verbatim>\<open>p\<close>; decimal digits with an optional point and an optional
  exponent \<^verbatim>\<open>e\<close>. A mantissa has a digit, an exponent has one too or is not read; what
  follows is ignored, and a string that starts with none of these reads as 0.
\<close>

definition is_space :: "char \<Rightarrow> bool" where
  "is_space c = (c \<in> set [CHR '' '', CHR 0x09, CHR 0x0A, CHR 0x0B, CHR 0x0C, CHR 0x0D])"

definition is_digit :: "char \<Rightarrow> bool" where
  "is_digit c = (48 \<le> (of_char c :: nat) \<and> (of_char c :: nat) \<le> 57)"

definition is_hex_digit :: "char \<Rightarrow> bool" where
  "is_hex_digit c =
     (is_digit c \<or> (97 \<le> (of_char c :: nat) \<and> (of_char c :: nat) \<le> 102)
      \<or> (65 \<le> (of_char c :: nat) \<and> (of_char c :: nat) \<le> 70))"

definition digits_value :: "string \<Rightarrow> nat" where
  "digits_value ds = fold (\<lambda>c v. 10 * v + ((of_char c :: nat) - 48)) ds 0"

definition hex_digit_value :: "char \<Rightarrow> nat" where
  "hex_digit_value c =
     (if is_digit c then of_char c - 48
      else if 97 \<le> (of_char c :: nat) then of_char c - 87 else of_char c - 55)"

definition hex_digits_value :: "string \<Rightarrow> nat" where
  "hex_digits_value ds = fold (\<lambda>c v. 16 * v + hex_digit_value c) ds 0"

text \<open>An optional sign: whether it is a minus, and the rest of the string.\<close>

fun read_sign :: "string \<Rightarrow> bool \<times> string" where
  "read_sign [] = (False, [])"
| "read_sign (c # cs) =
     (if c = CHR ''-'' then (True, cs) else if c = CHR ''+'' then (False, cs) else (False, c # cs))"

text \<open>A character is the given small letter, or its capital.\<close>

definition same_letter :: "char \<Rightarrow> char \<Rightarrow> bool" where
  "same_letter c small = (c = small \<or> (of_char c :: nat) + 32 = of_char small)"

fun starts_with_word :: "string \<Rightarrow> string \<Rightarrow> bool" where
  "starts_with_word s [] = True"
| "starts_with_word [] (l # ls) = False"
| "starts_with_word (c # cs) (l # ls) = (same_letter c l \<and> starts_with_word cs ls)"

text \<open>
  The exponent part behind the letter \<open>marker\<close>, if the rest of the string starts with
  a well-formed one.
\<close>

fun read_exponent :: "char \<Rightarrow> string \<Rightarrow> int" where
  "read_exponent marker [] = 0"
| "read_exponent marker (c # cs) =
     (if same_letter c marker
      then (let (negative, rest) = read_sign cs;
                ds = takeWhile is_digit rest
            in if ds = [] then 0
               else if negative then - int (digits_value ds) else int (digits_value ds))
      else 0)"

text \<open>Digits with an optional point: the digits before it, those behind it, and the rest.\<close>

definition read_mantissa :: "(char \<Rightarrow> bool) \<Rightarrow> string \<Rightarrow> string \<times> string \<times> string" where
  "read_mantissa digit s =
     (let whole = takeWhile digit s;
          s2 = dropWhile digit s
      in if s2 \<noteq> [] \<and> hd s2 = CHR ''.''
         then (whole, takeWhile digit (tl s2), dropWhile digit (tl s2))
         else (whole, [], s2))"

definition ieee_atof :: "string \<Rightarrow> binary64" where
  "ieee_atof s =
     (let (negative, s1) = read_sign (dropWhile is_space s);
          (hex_whole, hex_fraction, hex_rest) = read_mantissa is_hex_digit (drop 2 s1);
          (whole, fraction, rest) = read_mantissa is_digit s1
      in if starts_with_word s1 ''inf'' then Infinity negative
         else if starts_with_word s1 ''nan'' then NaN
         else if take 1 s1 = ''0'' \<and> starts_with_word (drop 1 s1) ''x''
                 \<and> (hex_whole \<noteq> [] \<or> hex_fraction \<noteq> [])
         then round_binary64 negative
                (real (hex_digits_value (hex_whole @ hex_fraction))
                 * 2 powi (read_exponent CHR ''p'' hex_rest - 4 * int (length hex_fraction)))
         else if whole = [] \<and> fraction = [] then Zero False
         else round_binary64 negative
                (real (digits_value (whole @ fraction))
                 * 10 powi (read_exponent CHR ''e'' rest - int (length fraction))))"

definition ieee :: "binary64 arithmetic" where
  "ieee =
     \<lparr>sub_double = ieee_minus, div_double = ieee_divide, mul_double = ieee_times,
      double_1e6 = Finite 1000000, unsigned_of_double = ieee_to_unsigned, atof = ieee_atof\<rparr>"

section \<open>The device\<close>

text \<open>
  The members of \<^verbatim>\<open>Device\<close>. The type of the samples is \<open>double\<close> wherever a spectrum
  is read, and the values of the arithmetic wherever the transmission is computed.
\<close>

record 'd Device =
  index :: unsigned
  pixels :: unsigned
  error :: int
  wavelengths :: "'d list"
  formatted_spectrum :: "'d list"
  background_spectrum :: "'d list"
  reference_spectrum :: "'d list"
  buffer :: "'d list"
  transmission :: "'d list"

text \<open>
  The scan loop of \<^verbatim>\<open>read_spectrum\<close>,
  \<^verbatim>\<open>for (unsigned scan = 0; scan < scans_to_average; scan++)\<close>: one driver call, the check
  of its error code, the repair of the buffer, and the accumulation
  \<^verbatim>\<open>formatted_spectrum[pixel] += buffer[pixel]\<close>. \<open>spectrum scan\<close> is the driver's reply to
  the call of that scan.
\<close>

function scan_loop ::
  "identity_reply \<Rightarrow> (nat \<Rightarrow> spectrum_reply) \<Rightarrow> unsigned \<Rightarrow> unsigned \<Rightarrow> double Device
     \<Rightarrow> double Device outcome" where
  "scan_loop serial spectrum scan scans_to_average d =
     (if scan < scans_to_average
      then (let (error', intensity) = spectrum (unat scan);
                d1 = d\<lparr>error := error',
                       buffer := driver_fill intensity (unat (pixels d)) (buffer d)\<rparr>
            in case check_for_error (error d1) of
                 Inl e \<Rightarrow> Inl e
               | Inr _ \<Rightarrow>
                   (case repair_false_pixels serial (buffer d1) of
                      Inl e \<Rightarrow> Inl e
                    | Inr (_, buffer') \<Rightarrow>
                        scan_loop serial spectrum (scan + 1) scans_to_average
                          (d1\<lparr>buffer := buffer',
                              formatted_spectrum :=
                                for_pixels (unat (pixels d)) (\<lambda>pixel x. x + buffer' ! pixel)
                                  (formatted_spectrum d1)\<rparr>)))
      else Inr d)"
  by pat_completeness auto

termination scan_loop
  by (relation "measure (\<lambda>(serial, spectrum, scan, scans_to_average, d). unat scans_to_average - unat scan)")
     (simp_all add: loop_measure_decreases)

declare scan_loop.simps [simp del]

text \<open>
  The start of \<^verbatim>\<open>read_spectrum\<close>: the scratch buffer and the accumulation buffer are
  resized when their size is not \<open>pixels\<close>; an accumulation buffer of the right size is
  set to 0.
\<close>

definition prepare_buffers :: "double Device \<Rightarrow> double Device" where
  "prepare_buffers d =
     (let d1 = (if length (buffer d) \<noteq> unat (pixels d)
                then d\<lparr>buffer := resize (buffer d) (unat (pixels d)) 0\<rparr> else d)
      in if length (formatted_spectrum d1) \<noteq> unat (pixels d1)
         then d1\<lparr>formatted_spectrum := resize (formatted_spectrum d1) (unat (pixels d1)) 0\<rparr>
         else d1\<lparr>formatted_spectrum :=
                  for_pixels (unat (pixels d1)) (\<lambda>pixel _. 0) (formatted_spectrum d1)\<rparr>)"

text \<open>
  \<^verbatim>\<open>read_spectrum\<close> up to the call of the smoother: the buffers are prepared, the
  scans are summed, and the sum is multiplied by \<^verbatim>\<open>1.0 / scans_to_average\<close>.
\<close>

definition average_scans ::
  "identity_reply \<Rightarrow> (nat \<Rightarrow> spectrum_reply) \<Rightarrow> unsigned \<Rightarrow> double Device
     \<Rightarrow> double Device outcome" where
  "average_scans serial spectrum scans_to_average d =
     (case scan_loop serial spectrum 0 scans_to_average (prepare_buffers d) of
        Inl e \<Rightarrow> Inl e
      | Inr d' \<Rightarrow>
          (let reverse_denominator = 1 / real (unat scans_to_average)
           in Inr (d'\<lparr>formatted_spectrum :=
                       for_pixels (unat (pixels d')) (\<lambda>pixel x. x * reverse_denominator)
                         (formatted_spectrum d')\<rparr>)))"

text \<open>
  \<^verbatim>\<open>bool Device::read_spectrum(unsigned scans_to_average, unsigned boxcar_width, bool silent)\<close>:
  the value returned and the device as the call leaves it. The value that
  \<^verbatim>\<open>average_vector\<close> returns is dropped.
\<close>

definition read_spectrum ::
  "identity_reply \<Rightarrow> (nat \<Rightarrow> spectrum_reply) \<Rightarrow> unsigned \<Rightarrow> unsigned \<Rightarrow> double Device
     \<Rightarrow> (bool \<times> double Device) outcome option" where
  "read_spectrum serial spectrum scans_to_average boxcar_width d =
     (case average_scans serial spectrum scans_to_average d of
        Inl e \<Rightarrow> Some (Inl e)
      | Inr d' \<Rightarrow>
          (case average_vector (formatted_spectrum d') boxcar_width of
             None \<Rightarrow> None
           | Some (Inl e) \<Rightarrow> Some (Inl e)
           | Some (Inr (_, X)) \<Rightarrow> Some (Inr (True, d'\<lparr>formatted_spectrum := X\<rparr>))))"


text \<open>
  The loop of \<^verbatim>\<open>calc_transmission\<close>,
  \<^verbatim>\<open>for (unsigned pixel = 0; pixel < raw.size(); pixel++)\<close>, which appends
  \<^verbatim>\<open>(raw[pixel] - background[pixel]) / (reference[pixel] - background[pixel])\<close> to
  \<open>result\<close>, in the arithmetic \<open>arith\<close>.
\<close>

function transmission_loop ::
  "'d arithmetic \<Rightarrow> nat \<Rightarrow> 'd list \<Rightarrow> 'd list \<Rightarrow> 'd list \<Rightarrow> 'd list \<Rightarrow> 'd list outcome" where
  "transmission_loop arith pixel raw background reference result =
     (if pixel < length raw
      then (case elem_at raw pixel of
              Inl e \<Rightarrow> Inl e
            | Inr s \<Rightarrow>
                (case elem_at background pixel of
                   Inl e \<Rightarrow> Inl e
                 | Inr b \<Rightarrow>
                     (case elem_at reference pixel of
                        Inl e \<Rightarrow> Inl e
                      | Inr r \<Rightarrow>
                          (let tau = div_double arith (sub_double arith s b) (sub_double arith r b)
                           in transmission_loop arith (pixel + 1) raw background reference
                                (result @ [tau])))))
      else Inr result)"
  by pat_completeness auto

termination transmission_loop
  by (relation "measure (\<lambda>(arith, pixel, raw, background, reference, result). length raw - pixel)")
     simp_all

declare transmission_loop.simps [simp del]

text \<open>
  \<^verbatim>\<open>bool Device::calc_transmission(double, double)\<close>: the value returned and the device as
  the call leaves it. The three \<^verbatim>\<open>assert\<close>s come first; the two spare arguments are not used.
\<close>

definition calc_transmission :: "'d arithmetic \<Rightarrow> 'd Device \<Rightarrow> (bool \<times> 'd Device) outcome" where
  "calc_transmission arith d =
     (if length (formatted_spectrum d) \<noteq> unat (pixels d) then Inl AssertionFailed
      else if length (background_spectrum d) \<noteq> unat (pixels d) then Inl AssertionFailed
      else if length (reference_spectrum d) \<noteq> unat (pixels d) then Inl AssertionFailed
      else (case transmission_loop arith 0 (formatted_spectrum d) (background_spectrum d)
                   (reference_spectrum d) [] of
              Inl e \<Rightarrow> Inl e
            | Inr result \<Rightarrow> Inr (True, d\<lparr>transmission := result\<rparr>)))"

text \<open>The constructor \<^verbatim>\<open>Device(unsigned index)\<close> with the default member initialisers.\<close>

definition Device_new :: "unsigned \<Rightarrow> double Device" where
  "Device_new i =
     \<lparr>index = i, pixels = 0, error = 0, wavelengths = [], formatted_spectrum = [],
      background_spectrum = [], reference_spectrum = [], buffer = [], transmission = []\<rparr>"

section \<open>The integration times of \<^verbatim>\<open>Meter::pre\<close>\<close>

text \<open>\<^verbatim>\<open>s.find(delimiter, pos)\<close>; \<open>None\<close> is \<^verbatim>\<open>npos\<close>, which the program reads as \<open>-1\<close>.\<close>

function find_char :: "string \<Rightarrow> char \<Rightarrow> nat \<Rightarrow> nat option" where
  "find_char s delimiter pos =
     (if pos < length s
      then (if s ! pos = delimiter then Some pos else find_char s delimiter (pos + 1))
      else None)"
  by pat_completeness auto

termination find_char
  by (relation "measure (\<lambda>(s, delimiter, pos). length s - pos)") simp_all

declare find_char.simps [simp del]

lemma find_char_bounds: "find_char s delimiter pos = Some j \<Longrightarrow> pos \<le> j \<and> j < length s"
proof (induction s delimiter pos rule: find_char.induct)
  case (1 s delimiter pos)
  show ?case
  proof (cases "pos < length s \<and> s ! pos \<noteq> delimiter")
    case True
    then have "find_char s delimiter (pos + 1) = Some j"
      using "1.prems" by (simp add: find_char.simps [of s delimiter pos])
    then have "pos + 1 \<le> j \<and> j < length s" using True "1.IH" by simp
    then show ?thesis by simp
  next
    case False
    then show ?thesis
      using "1.prems" by (auto simp add: find_char.simps [of s delimiter pos] split: if_splits)
  qed
qed

text \<open>
  The loop of \<^verbatim>\<open>split_string\<close>: \<^verbatim>\<open>s.substr(i)\<close> is \<open>drop i s\<close> and
  \<^verbatim>\<open>s.substr(i, j-i)\<close> is \<open>take (j - i) (drop i s)\<close>. The \<^verbatim>\<open>int\<close> positions are natural
  numbers here (a string is shorter than \<open>2^31\<close> characters).
\<close>

function split_loop :: "string \<Rightarrow> char \<Rightarrow> nat \<Rightarrow> string list \<Rightarrow> string list" where
  "split_loop s delimiter i array =
     (if i < length s
      then (case find_char s delimiter i of
              None \<Rightarrow> array @ [drop i s]
            | Some j \<Rightarrow> split_loop s delimiter (j + 1) (array @ [take (j - i) (drop i s)]))
      else array)"
  by pat_completeness auto

termination split_loop
proof (relation "measure (\<lambda>(s, delimiter, i, array). length s - i)")
  show "wf (measure (\<lambda>(s, delimiter, i, array). length s - i))" by simp
next
  fix s :: string and delimiter i j and array :: "string list"
  assume "i < length s" and "find_char s delimiter i = Some j"
  then have "i \<le> j \<and> j < length s" using find_char_bounds by blast
  then show "((s, delimiter, j + 1, array @ [take (j - i) (drop i s)]), (s, delimiter, i, array))
      \<in> measure (\<lambda>(s, delimiter, i, array). length s - i)"
    by auto
qed

declare split_loop.simps [simp del]

text \<open>\<^verbatim>\<open>vector<string> split_string(string s, char delimiter)\<close>\<close>

definition split_string :: "string \<Rightarrow> char \<Rightarrow> string list" where
  "split_string s delimiter = split_loop s delimiter 0 []"

text \<open>
  \<^verbatim>\<open>for (unsigned i = n; i < devices.size(); i++) str_arr.push_back(str_arr[n-1]);\<close>
  where \<open>n\<close> is the number of values given; \<open>n - 1\<close> is \<^verbatim>\<open>unsigned\<close>. There are at
  most \<^verbatim>\<open>MAX_DEVICES = 16\<close> devices, so the counter \<open>i\<close> does not wrap.
\<close>

function pad_loop :: "nat \<Rightarrow> nat \<Rightarrow> unsigned \<Rightarrow> string list \<Rightarrow> string list outcome" where
  "pad_loop i devices n str_arr =
     (if i < devices
      then (case elem_at str_arr (unat (n - 1)) of
              Inl e \<Rightarrow> Inl e
            | Inr last_given \<Rightarrow> pad_loop (i + 1) devices n (str_arr @ [last_given]))
      else Inr str_arr)"
  by pat_completeness auto

termination pad_loop
  by (relation "measure (\<lambda>(i, devices, n, str_arr). devices - i)") simp_all

declare pad_loop.simps [simp del]

text \<open>
  The body of the conversion loop of \<^verbatim>\<open>Meter::pre\<close>,
  \<^verbatim>\<open>double t_s = atof(str.c_str()); unsigned t_us = unsigned(t_s * 1e6);\<close>
  in the arithmetic \<open>arith\<close>.
\<close>

definition micro_seconds :: "'d arithmetic \<Rightarrow> string \<Rightarrow> unsigned outcome" where
  "micro_seconds arith str =
     (let t_s = atof arith str
      in unsigned_of_double arith (mul_double arith t_s (double_1e6 arith)))"

text \<open>
  \<^verbatim>\<open>for (unsigned i = 0; i < devices.size(); i++)\<close>: the conversion of \<^verbatim>\<open>str_arr[i]\<close>
  and \<^verbatim>\<open>push_back\<close>.
\<close>

function convert_loop ::
  "'d arithmetic \<Rightarrow> nat \<Rightarrow> nat \<Rightarrow> string list \<Rightarrow> unsigned list \<Rightarrow> unsigned list outcome" where
  "convert_loop arith i devices str_arr integration_times =
     (if i < devices
      then (case elem_at str_arr i of
              Inl e \<Rightarrow> Inl e
            | Inr str \<Rightarrow>
                (case micro_seconds arith str of
                   Inl e \<Rightarrow> Inl e
                 | Inr t_us \<Rightarrow>
                     convert_loop arith (i + 1) devices str_arr (integration_times @ [t_us])))
      else Inr integration_times)"
  by pat_completeness auto

termination convert_loop
  by (relation "measure (\<lambda>(arith, i, devices, str_arr, integration_times). devices - i)") simp_all

declare convert_loop.simps [simp del]

text \<open>
  The part of \<^verbatim>\<open>Meter::pre\<close> that fills \<^verbatim>\<open>integration_times_micro_seconds\<close> from
  \<^verbatim>\<open>integration_time_str\<close>, for \<open>devices\<close> opened devices.
\<close>

definition pre_integration_times :: "'d arithmetic \<Rightarrow> string \<Rightarrow> nat \<Rightarrow> unsigned list outcome" where
  "pre_integration_times arith integration_time_str devices =
     (let str_arr = split_string integration_time_str CHR '':'' in
      case (if length str_arr < devices
            then pad_loop (length str_arr) devices (word_of_nat (length str_arr)) str_arr
            else Inr str_arr) of
        Inl e \<Rightarrow> Inl e
      | Inr str_arr' \<Rightarrow> convert_loop arith 0 devices str_arr' [])"

section \<open>The sleep of \<^verbatim>\<open>Meter::task\<close> and the teardown \<^verbatim>\<open>Meter::post\<close>\<close>

datatype timer_unit = Minutes | Seconds | Milliseconds

text \<open>
  The conversion \<^verbatim>\<open>static_cast<unsigned long>(x)\<close> of a \<^verbatim>\<open>double\<close> (64 bits).
\<close>

definition double_to_unsigned_long :: "double \<Rightarrow> nat outcome" where
  "double_to_unsigned_long x =
     (if 0 \<le> trunc x \<and> trunc x < 2 ^ 64 then Inr (nat (trunc x)) else Inl Undefined)"

text \<open>
  The sleep at the end of an iteration of \<^verbatim>\<open>Meter::task\<close>: the unit of the
  \<^verbatim>\<open>std::chrono\<close> duration handed to \<^verbatim>\<open>sleep_for\<close>, and its count.
\<close>

definition post_scans_sleep_for :: "double \<Rightarrow> timer_unit \<times> nat outcome" where
  "post_scans_sleep_for post_scans_sleep =
     (if post_scans_sleep > 600 then (Minutes, double_to_unsigned_long (post_scans_sleep / 60))
      else if post_scans_sleep > 10 then (Seconds, double_to_unsigned_long (post_scans_sleep * 1))
      else (Milliseconds, double_to_unsigned_long (post_scans_sleep * 1000)))"

text \<open>
  The loop of \<^verbatim>\<open>Meter::post\<close> over the devices: the indices handed to the driver's
  \<^verbatim>\<open>seabreeze_close_spectrometer\<close> so far, in order, and how the loop ends. The driver
  is a parameter: \<open>close i\<close> is the error code it stores through \<^verbatim>\<open>&error\<close> when
  asked to close the device of index \<open>i\<close>.
\<close>

fun post_loop ::
  "(unsigned \<Rightarrow> int) \<Rightarrow> 'd Device list \<Rightarrow> unsigned list \<Rightarrow> unsigned list \<times> bool outcome" where
  "post_loop close [] calls = (calls, Inr True)"
| "post_loop close (device # devices) calls =
     (let error' = close (index device); calls' = calls @ [index device]
      in case check_for_error error' of
           Inl e \<Rightarrow> (calls', Inl e)
         | Inr _ \<Rightarrow> post_loop close devices calls')"

text \<open>\<^verbatim>\<open>bool Meter::post()\<close>; the plot script is compiled out.\<close>

definition post :: "(unsigned \<Rightarrow> int) \<Rightarrow> 'd Device list \<Rightarrow> unsigned list \<times> bool outcome" where
  "post close devices = post_loop close devices []"

section \<open>What the specification asks for, and sample inputs\<close>

text \<open>
  The value the specification gives to an interior position \<open>i\<close> of the smoothed
  sequence: the arithmetic mean of the \<open>2r+1\<close> samples of the input centred at \<open>i\<close>.
\<close>

definition spec_window_mean :: "double list \<Rightarrow> nat \<Rightarrow> nat \<Rightarrow> double" where
  "spec_window_mean X i r = sum_list (map (\<lambda>k. X ! k) [i - r..<i + r + 1]) / real (2 * r + 1)"

text \<open>
  Devices of binary64 samples: one of two pixels with a spectrum and both baselines, one
  without baselines, and one of three pixels whose reference equals its background at
  pixels 1 and 2.
\<close>

definition calibrated_device :: "binary64 Device" where
  "calibrated_device =
     \<lparr>index = 0, pixels = 2, error = 0, wavelengths = [],
      formatted_spectrum = [Finite 2, Finite 2], background_spectrum = [Zero False, Zero False],
      reference_spectrum = [Finite 4, Finite 4], buffer = [], transmission = []\<rparr>"

definition uncalibrated_device :: "binary64 Device" where
  "uncalibrated_device =
     \<lparr>index = 0, pixels = 2, error = 0, wavelengths = [],
      formatted_spectrum = [Finite 2, Finite 2], background_spectrum = [],
      reference_spectrum = [], buffer = [], transmission = []\<rparr>"

definition dark_reference_device :: "binary64 Device" where
  "dark_reference_device =
     \<lparr>index = 0, pixels = 3, error = 0, wavelengths = [],
      formatted_spectrum = [Finite 3, Finite 1, Finite 5],
      background_spectrum = [Finite 1, Finite 1, Finite 1],
      reference_spectrum = [Finite 2, Finite 1, Finite 1], buffer = [], transmission = []\<rparr>"

text \<open>
  The time strings the specification gives to \<open>devices\<close> devices: the values given and,
  when they are too few, the last given value for each remaining device.
\<close>

definition spec_time_strings :: "string list \<Rightarrow> nat \<Rightarrow> string list" where
  "spec_time_strings given devices =
     take devices (given @ replicate (devices - length given) (last given))"

text \<open>
  The states of a device that the program produces: \<^verbatim>\<open>formatted_spectrum\<close> is empty, as
  the constructor leaves it, or has \<open>pixels\<close> elements, as \<^verbatim>\<open>read_spectrum\<close> leaves it.
\<close>

definition receivable :: "double Device \<Rightarrow> bool" where
  "receivable d = (formatted_spectrum d = [] \<or> length (formatted_spectrum d) = unat (pixels d))"





definition stale_device :: "double Device" where
  "stale_device = (Device_new 0)\<lparr>pixels := 3, formatted_spectrum := [5]\<rparr>"

text \<open>
  A driver that closes every device without error, and one that reports error 5 when
  asked to close device 0.
\<close>

definition close_succeeds :: "unsigned \<Rightarrow> int" where
  "close_succeeds = (\<lambda>i. 0)"

definition first_close_fails :: "unsigned \<Rightarrow> int" where
  "first_close_fails = (\<lambda>i. if i = 0 then 5 else 0)"

section \<open>Properties of the smoother\<close>

lemmas smoother_eval = average_vector_def center_loop.simps window_loop.simps elem_at_def
  store_at_def plateau_def sum_loop.simps fill_loop.simps word_less_nat_alt word_le_nat_alt

lemma unat_minus_one_32: "unat (- 1 :: 32 word) = 4294967295"
  by (simp add: unsigned_minus_1_eq_mask mask_eq_exp_minus_1)

text \<open>
  Claim C1. For \<open>0 < r < n/2\<close>, every interior position is said to hold the mean of its
  window of the original input. The centre loop writes each mean back into the vector it
  reads from, so from the second interior position on the left half of the window holds
  values that are already smoothed. For the input \<open>[0, 0, 9, 0, 8]\<close> and radius 1 the call
  leaves 4 at position 2, where the mean of the original window \<open>0, 9, 0\<close> is 3.
\<close>

theorem average_vector_reads_smoothed_values:
  "average_vector [0, 0, 9, 0, 8] 1 = Some (Inr (True, [0, 3, 4, 4, 8]))
   \<and> spec_window_mean [0, 0, 9, 0, 8] 2 1 = 3"
  by (simp add: smoother_eval spec_window_mean_def upt_conv_Cons)

text \<open>
  Claim C4. For a non-empty sequence and \<open>n < 2r\<close> the centre loop is said to make no
  iteration and every access to stay inside the vector. When \<open>n < r\<close> the bound
  \<^verbatim>\<open>n - boxcar\<close> wraps around: for one sample and radius 2 the loop condition
  \<open>2 < 1 - 2\<close> holds, the loop is entered and reads \<open>X[2]\<close>, outside the vector.
\<close>

theorem average_vector_short_vector_out_of_range:
  "(2 :: unsigned) < word_of_nat (length [1 :: double]) - 2
   \<and> center_loop 2 (word_of_nat (length [1 :: double])) 2 [1] = Some (Inl Undefined)
   \<and> average_vector [1] 2 = Some (Inl Undefined)"
  by (simp add: smoother_eval unat_minus_one_32)

lemma sum_loop_in_range:
  "unat stop \<le> length X \<Longrightarrow> \<exists>total. sum_loop X i stop average = Inr total"
proof (induction X i stop average rule: sum_loop.induct)
  case (1 X i stop average)
  show ?case
  proof (cases "i < stop")
    case True
    then have "unat i < length X" using "1.prems" by (simp add: word_less_nat_alt)
    then show ?thesis
      using True "1.IH" [of "X ! unat i"] "1.prems"
      by (simp add: sum_loop.simps [of X i] elem_at_def)
  next
    case False
    then show ?thesis by (simp add: sum_loop.simps [of X i])
  qed
qed

lemma fill_loop_in_range:
  "unat stop \<le> length X \<Longrightarrow>
     \<exists>X'. fill_loop i stop average X = Inr X' \<and> length X' = length X"
proof (induction i stop average X rule: fill_loop.induct)
  case (1 i stop average X)
  show ?case
  proof (cases "i < stop")
    case True
    then have "unat i < length X" using "1.prems" by (simp add: word_less_nat_alt)
    then show ?thesis
      using True "1.IH" [of "X[unat i := average]"] "1.prems"
      by (simp add: fill_loop.simps [of i] store_at_def)
  next
    case False
    then show ?thesis by (simp add: fill_loop.simps [of i])
  qed
qed

lemma plateau_in_range:
  assumes "unat stop \<le> length X"
  shows "\<exists>X'. plateau first stop boxcar X = Inr X' \<and> length X' = length X"
proof -
  obtain total where "sum_loop X first stop 0 = Inr total"
    using sum_loop_in_range [OF assms] by blast
  then show ?thesis
    using fill_loop_in_range [OF assms] by (simp add: plateau_def)
qed

text \<open>
  Overlapping plateaus inside the vector: when the radius is at most the size and the
  size is below twice the radius, the centre loop makes no iteration and leaves the
  vector as it is, the two plateau passes stay inside the vector, and the call returns
  true with a vector of the same size.
\<close>

lemma average_vector_overlapping_plateaus:
  assumes small: "length X < 2 ^ 32"
    and covers: "unat boxcar \<le> length X" and overlap: "length X < 2 * unat boxcar"
  shows "center_loop boxcar (word_of_nat (length X)) boxcar X = Some (Inr X)
    \<and> (\<exists>X'. average_vector X boxcar = Some (Inr (True, X')) \<and> length X' = length X)"
proof -
  let ?n = "word_of_nat (length X) :: unsigned"
  have n: "unat ?n = length X" using small by (simp add: unat_of_nat)
  then have "boxcar \<le> ?n" using covers by (simp add: word_le_nat_alt)
  then have "unat (?n - boxcar) = length X - unat boxcar" using n by (simp add: unat_sub)
  then have no_centre: "\<not> boxcar < ?n - boxcar"
    using overlap by (simp add: word_less_nat_alt)
  then have centre: "center_loop boxcar ?n boxcar X = Some (Inr X)"
    by (simp add: center_loop.simps [of boxcar])
  have "X \<noteq> []" and "\<not> boxcar \<le> 0"
    using overlap covers by (auto simp add: word_le_nat_alt)
  moreover obtain X2 where left: "plateau 0 boxcar boxcar X = Inr X2" "length X2 = length X"
    using plateau_in_range [OF covers] by blast
  moreover obtain X3 where "plateau (?n - boxcar) ?n boxcar X2 = Inr X3" "length X3 = length X2"
    using plateau_in_range [of ?n X2] n left(2) by auto
  ultimately show ?thesis using centre by (simp add: average_vector_def)
qed

text \<open>
  Claim C7. If the sequence is empty or the radius is 0, \<^verbatim>\<open>average_vector\<close> returns
  false and leaves the sequence as it was; it neither exits nor fails an assertion nor
  reads outside the vector. Its caller \<^verbatim>\<open>read_spectrum\<close> takes radius 0 as smoothing
  switched off: it returns true with the averaged scans as they are.
\<close>

theorem average_vector_not_applicable:
  "(X = [] \<or> boxcar = 0 \<longrightarrow> average_vector X boxcar = Some (Inr (False, X)))
   \<and> read_spectrum serial spectrum scans_to_average 0 d =
       Some (map_sum id (Pair True) (average_scans serial spectrum scans_to_average d))"
  by (auto simp add: average_vector_def read_spectrum_def split: sum.splits)

theorem average_vector_not_applicable_witness:
  "([] = ([] :: double list) \<or> (3 :: unsigned) = 0) \<and> average_vector [] 3 = Some (Inr (False, []))
   \<and> ([1, 2] = ([] :: double list) \<or> (0 :: unsigned) = 0)
   \<and> average_vector [1, 2] 0 = Some (Inr (False, [1, 2]))"
  using average_vector_not_applicable [of "[]" 3] average_vector_not_applicable [of "[1, 2]" 0]
  by simp

section \<open>Properties of the device\<close>

text \<open>
  Claim C5. On a non-zero error of the identity query, \<^verbatim>\<open>serial_number\<close> and
  \<^verbatim>\<open>model_name\<close> are said to return \<open>unknown\<close> and the run to go on. Both hand the
  error to \<^verbatim>\<open>check_for_error\<close> first, which ends the process with status 1; the
  \<open>unknown\<close> branch behind it is never reached.
\<close>

theorem identity_query_error_exits:
  "serial_number (1, ''FLMS03141'') = Inl (Exited 1 1)
   \<and> model_name (1, ''FLAME-S'') = Inl (Exited 1 1)"
  by (simp add: serial_number_def model_name_def check_for_error_def)

text \<open>The same for every error code and every text: neither call ever returns \<open>unknown\<close>
  on an error.\<close>

lemma identity_query_never_unknown_on_error:
  "error_code \<noteq> 0 \<Longrightarrow>
     serial_number (error_code, answer) = Inl (Exited error_code 1)
     \<and> model_name (error_code, answer) = Inl (Exited error_code 1)"
  by (simp add: serial_number_def model_name_def check_for_error_def)

text \<open>Rules that evaluate the rounding on numerals.\<close>

lemma bit_length_0: "bit_length 0 = 0"
  by (simp add: bit_length.simps)

lemma bit_length_1: "bit_length 1 = 1"
  by (simp add: bit_length.simps)

lemma bit_length_Suc_0: "bit_length (Suc 0) = 1"
  by (simp add: bit_length.simps)

lemma bit_length_numeral: "bit_length (numeral k) = bit_length (numeral k div 2) + 1"
  by (simp add: bit_length.simps [of "numeral k"])

lemmas round_eval = round_binary64_def round_magnitude_def floor_log2_def
  bit_length_0 bit_length_1 bit_length_Suc_0 bit_length_numeral Let_def

lemma transmission_loop_result:
  assumes "length background = length raw" and "length reference = length raw"
  shows "transmission_loop arith pixel raw background reference result =
    Inr (result @ map (\<lambda>p. div_double arith (sub_double arith (raw ! p) (background ! p))
                               (sub_double arith (reference ! p) (background ! p)))
                    [pixel..<length raw])"
  using assms
proof (induction arith pixel raw background reference result rule: transmission_loop.induct)
  case (1 arith pixel raw background reference result)
  let ?tau = "div_double arith (sub_double arith (raw ! pixel) (background ! pixel))
                (sub_double arith (reference ! pixel) (background ! pixel))"
  show ?case
  proof (cases "pixel < length raw")
    case True
    have step: "transmission_loop arith pixel raw background reference result =
      transmission_loop arith (pixel + 1) raw background reference (result @ [?tau])"
      using True "1.prems" by (simp add: transmission_loop.simps [of arith pixel] elem_at_def)
    have "transmission_loop arith (pixel + 1) raw background reference (result @ [?tau])
      = Inr ((result @ [?tau])
          @ map (\<lambda>p. div_double arith (sub_double arith (raw ! p) (background ! p))
                         (sub_double arith (reference ! p) (background ! p)))
              [pixel + 1..<length raw])"
      using True "1.prems" by (intro "1.IH") (simp_all add: elem_at_def)
    then show ?thesis using step True by (simp add: upt_conv_Cons)
  next
    case False
    then show ?thesis by (simp add: transmission_loop.simps [of arith pixel])
  qed
qed

lemma dark_reference_transmission:
  "calc_transmission ieee dark_reference_device
     = Inr (True, dark_reference_device\<lparr>transmission := [Finite 2, NaN, Infinity False]\<rparr>)"
  by (simp add: calc_transmission_def transmission_loop_result dark_reference_device_def ieee_def
        upt_conv_Cons round_eval)

text \<open>
  Claim C2. In every arithmetic, when the spectrum and both baselines have \<open>pixels\<close>
  elements, \<^verbatim>\<open>calc_transmission\<close> returns true and sets \<open>transmission\<close> to a sequence
  of \<open>pixels\<close> elements, element \<open>i\<close> being the quotient, as the arithmetic gives it, of
  spectrum minus background by reference minus background, whatever the denominator is;
  nothing else of the device changes. When one of the three sizes is not \<open>pixels\<close>, an
  assertion fails. In binary64 nothing is clamped and no NaN is replaced: the spectrum
  \<open>[3, 1, 5]\<close> with background \<open>[1, 1, 1]\<close> and reference \<open>[2, 1, 1]\<close> gives the
  transmission \<open>[2, NaN, +\<infinity>]\<close>.
\<close>

theorem calc_transmission_quotients:
  "(length (formatted_spectrum d) = unat (pixels d)
      \<and> length (background_spectrum d) = unat (pixels d)
      \<and> length (reference_spectrum d) = unat (pixels d)
    \<longrightarrow> (\<exists>tau. calc_transmission arith d = Inr (True, d\<lparr>transmission := tau\<rparr>)
           \<and> length tau = unat (pixels d)
           \<and> (\<forall>i < unat (pixels d).
                 tau ! i = div_double arith
                             (sub_double arith (formatted_spectrum d ! i) (background_spectrum d ! i))
                             (sub_double arith (reference_spectrum d ! i) (background_spectrum d ! i)))))
   \<and> (length (formatted_spectrum d) \<noteq> unat (pixels d)
      \<or> length (background_spectrum d) \<noteq> unat (pixels d)
      \<or> length (reference_spectrum d) \<noteq> unat (pixels d)
    \<longrightarrow> calc_transmission arith d = Inl AssertionFailed)
   \<and> calc_transmission ieee dark_reference_device
       = Inr (True, dark_reference_device\<lparr>transmission := [Finite 2, NaN, Infinity False]\<rparr>)"
  using dark_reference_transmission
  by (auto simp add: calc_transmission_def transmission_loop_result)

theorem calc_transmission_quotients_witness:
  "length (formatted_spectrum calibrated_device) = unat (pixels calibrated_device)
   \<and> length (background_spectrum calibrated_device) = unat (pixels calibrated_device)
   \<and> length (reference_spectrum calibrated_device) = unat (pixels calibrated_device)
   \<and> (\<exists>tau. calc_transmission ieee calibrated_device
               = Inr (True, calibrated_device\<lparr>transmission := tau\<rparr>)
            \<and> length tau = 2 \<and> tau ! 0 = Finite (1 / 2) \<and> tau ! 1 = Finite (1 / 2))
   \<and> length (background_spectrum uncalibrated_device) \<noteq> unat (pixels uncalibrated_device)
   \<and> calc_transmission ieee uncalibrated_device = Inl AssertionFailed"
proof -
  have sizes: "length (formatted_spectrum calibrated_device) = unat (pixels calibrated_device)
      \<and> length (background_spectrum calibrated_device) = unat (pixels calibrated_device)
      \<and> length (reference_spectrum calibrated_device) = unat (pixels calibrated_device)"
    by (simp add: calibrated_device_def)
  then obtain tau where tau:
    "calc_transmission ieee calibrated_device = Inr (True, calibrated_device\<lparr>transmission := tau\<rparr>)"
    "length tau = unat (pixels calibrated_device)"
    "\<forall>i < unat (pixels calibrated_device).
       tau ! i = div_double ieee
                   (sub_double ieee (formatted_spectrum calibrated_device ! i)
                      (background_spectrum calibrated_device ! i))
                   (sub_double ieee (reference_spectrum calibrated_device ! i)
                      (background_spectrum calibrated_device ! i))"
    using calc_transmission_quotients [of calibrated_device ieee] by blast
  have two: "unat (pixels calibrated_device) = 2"
    by (simp add: calibrated_device_def)
  have "tau ! 0 = Finite (1 / 2)" and "tau ! 1 = Finite (1 / 2)"
    using tau(3) two by (simp_all add: calibrated_device_def ieee_def round_eval)
  moreover have missing:
    "length (background_spectrum uncalibrated_device) \<noteq> unat (pixels uncalibrated_device)"
    by (simp add: uncalibrated_device_def)
  moreover have "calc_transmission ieee uncalibrated_device = Inl AssertionFailed"
    using calc_transmission_quotients [of uncalibrated_device ieee] missing by blast
  ultimately show ?thesis using sizes tau(1,2) two by auto
qed

lemma repair_loop_result:
  assumes "i_correct \<le> length buf"
  shows "\<exists>buf'. repair_loop i i_correct corr buf = Inr buf' \<and> length buf' = length buf
     \<and> (\<forall>k < length buf. buf' ! k =
          (if i \<le> k \<and> k < i_correct \<and> (buf ! k < 0.5 * corr \<or> buf ! k > 2 * corr)
           then corr else buf ! k))"
  using assms
proof (induction i i_correct corr buf rule: repair_loop.induct)
  case (1 i i_correct corr buf)
  show ?case
  proof (cases "i < i_correct")
    case False
    then show ?thesis by (simp add: repair_loop.simps [of i])
  next
    case True
    then have inside: "i < length buf" using "1.prems" by simp
    show ?thesis
    proof (cases "buf ! i < 0.5 * corr \<or> buf ! i > 2 * corr")
      case outside: True
      have step: "repair_loop i i_correct corr buf = repair_loop (i + 1) i_correct corr (buf[i := corr])"
        using True inside outside by (simp add: repair_loop.simps [of i] elem_at_def store_at_def)
      obtain buf' where buf': "repair_loop (i + 1) i_correct corr (buf[i := corr]) = Inr buf'"
        "length buf' = length (buf[i := corr])"
        "\<forall>k < length (buf[i := corr]). buf' ! k =
          (if i + 1 \<le> k \<and> k < i_correct \<and> (buf[i := corr] ! k < 0.5 * corr \<or> buf[i := corr] ! k > 2 * corr)
           then corr else buf[i := corr] ! k)"
        using "1.IH"(1) [of "buf ! i" "buf[i := corr]"] True inside outside "1.prems"
        by (auto simp add: elem_at_def store_at_def)
      have "\<forall>k < length buf. buf' ! k =
          (if i \<le> k \<and> k < i_correct \<and> (buf ! k < 0.5 * corr \<or> buf ! k > 2 * corr)
           then corr else buf ! k)"
      proof (intro allI impI)
        fix k assume k: "k < length buf"
        show "buf' ! k = (if i \<le> k \<and> k < i_correct \<and> (buf ! k < 0.5 * corr \<or> buf ! k > 2 * corr)
           then corr else buf ! k)"
        proof (cases "k = i")
          case True
          then show ?thesis using buf'(3) k outside \<open>i < i_correct\<close> by simp
        next
          case False
          then have "(i + 1 \<le> k) = (i \<le> k)" by auto
          then show ?thesis using buf'(3) k False by auto
        qed
      qed
      then show ?thesis using step buf'(1,2) by simp
    next
      case within: False
      have step: "repair_loop i i_correct corr buf = repair_loop (i + 1) i_correct corr buf"
        using True inside within by (simp add: repair_loop.simps [of i] elem_at_def store_at_def)
      obtain buf' where buf': "repair_loop (i + 1) i_correct corr buf = Inr buf'"
        "length buf' = length buf"
        "\<forall>k < length buf. buf' ! k =
          (if i + 1 \<le> k \<and> k < i_correct \<and> (buf ! k < 0.5 * corr \<or> buf ! k > 2 * corr)
           then corr else buf ! k)"
        using "1.IH"(2) [of "buf ! i"] True inside within "1.prems"
        by (auto simp add: elem_at_def)
      have "\<forall>k < length buf. buf' ! k =
          (if i \<le> k \<and> k < i_correct \<and> (buf ! k < 0.5 * corr \<or> buf ! k > 2 * corr)
           then corr else buf ! k)"
      proof (intro allI impI)
        fix k assume k: "k < length buf"
        show "buf' ! k = (if i \<le> k \<and> k < i_correct \<and> (buf ! k < 0.5 * corr \<or> buf ! k > 2 * corr)
           then corr else buf ! k)"
        proof (cases "k = i")
          case True
          then show ?thesis using buf'(3) k within by simp
        next
          case False
          then have "(i + 1 \<le> k) = (i \<le> k)" by auto
          then show ?thesis using buf'(3) k by auto
        qed
      qed
      then show ?thesis using step buf'(1,2) by simp
    qed
  qed
qed

text \<open>
  Claim C8. For a device whose serial number is the one of the point-repair rule and a
  buffer that has the reference pixel 2, \<^verbatim>\<open>repair_false_pixels\<close> returns true; pixel 0
  and pixel 1 are each replaced by \<open>buffer[2]\<close> exactly when they lie outside the band
  from half to twice \<open>buffer[2]\<close>, and are unchanged otherwise; the size and every pixel
  from 2 on are unchanged.
\<close>

theorem repair_false_pixels_tolerance_band:
  "3 \<le> length buf \<longrightarrow>
     (\<exists>buf'. repair_false_pixels (0, ''FLMS03141'') buf = Inr (True, buf')
        \<and> length buf' = length buf
        \<and> (\<forall>i < 2. buf' ! i = (if 0.5 * buf ! 2 \<le> buf ! i \<and> buf ! i \<le> 2 * buf ! 2
                                 then buf ! i else buf ! 2))
        \<and> (\<forall>i. 2 \<le> i \<and> i < length buf \<longrightarrow> buf' ! i = buf ! i))"
proof
  assume len: "3 \<le> length buf"
  then have two: "2 \<le> length buf" and third: "2 < length buf" by arith+
  obtain buf' where buf': "repair_loop 0 2 (buf ! 2) buf = Inr buf'" "length buf' = length buf"
    "\<forall>k < length buf. buf' ! k =
          (if 0 \<le> k \<and> k < 2 \<and> (buf ! k < 0.5 * buf ! 2 \<or> buf ! k > 2 * buf ! 2)
           then buf ! 2 else buf ! k)"
    using repair_loop_result [OF two, of 0 "buf ! 2"] by blast
  have run: "repair_false_pixels (0, ''FLMS03141'') buf = Inr (True, buf')"
    using third buf'(1)
    by (simp add: repair_false_pixels_def serial_number_def check_for_error_def elem_at_def)
  have lead: "\<forall>i < 2. buf' ! i = (if 0.5 * buf ! 2 \<le> buf ! i \<and> buf ! i \<le> 2 * buf ! 2
                                 then buf ! i else buf ! 2)"
    using buf'(3) third by (auto simp add: not_less not_le)
  have rest: "\<forall>i. 2 \<le> i \<and> i < length buf \<longrightarrow> buf' ! i = buf ! i"
    using buf'(3) by simp
  show "\<exists>buf'. repair_false_pixels (0, ''FLMS03141'') buf = Inr (True, buf')
        \<and> length buf' = length buf
        \<and> (\<forall>i < 2. buf' ! i = (if 0.5 * buf ! 2 \<le> buf ! i \<and> buf ! i \<le> 2 * buf ! 2
                                 then buf ! i else buf ! 2))
        \<and> (\<forall>i. 2 \<le> i \<and> i < length buf \<longrightarrow> buf' ! i = buf ! i)"
    using run buf'(2) lead rest by blast
qed

theorem repair_false_pixels_tolerance_band_witness:
  "3 \<le> length [100, 7, 10, 11 :: double]
   \<and> (\<exists>buf'. repair_false_pixels (0, ''FLMS03141'') [100, 7, 10, 11] = Inr (True, buf')
         \<and> length buf' = 4 \<and> buf' ! 0 = 10 \<and> buf' ! 1 = 7 \<and> buf' ! 2 = 10 \<and> buf' ! 3 = 11)"
proof -
  have len: "3 \<le> length [100, 7, 10, 11 :: double]" by simp
  then obtain buf' where run: "repair_false_pixels (0, ''FLMS03141'') [100, 7, 10, 11] = Inr (True, buf')"
    and size: "length buf' = length [100, 7, 10, 11 :: double]"
    and lead: "\<forall>i < 2. buf' ! i =
       (if 0.5 * [100, 7, 10, 11] ! 2 \<le> [100, 7, 10, 11 :: double] ! i
           \<and> [100, 7, 10, 11] ! i \<le> 2 * [100, 7, 10, 11 :: double] ! 2
        then [100, 7, 10, 11] ! i else [100, 7, 10, 11] ! 2)"
    and rest: "\<forall>i. 2 \<le> i \<and> i < length [100, 7, 10, 11 :: double] \<longrightarrow> buf' ! i = [100, 7, 10, 11] ! i"
    using repair_false_pixels_tolerance_band [of "[100, 7, 10, 11]"] by blast
  have "buf' ! 0 = 10" using lead [rule_format, of 0] by simp
  moreover have "buf' ! 1 = 7" using lead [rule_format, of 1] by simp
  moreover have "buf' ! 2 = 10" using rest [rule_format, of 2] by simp
  moreover have "buf' ! 3 = 11" using rest [rule_format, of 3] by simp
  ultimately show ?thesis using len run size by auto
qed

lemma for_pixels_result:
  "k \<le> length X \<Longrightarrow> for_pixels k f X = map (\<lambda>p. f p (X ! p)) [0..<k] @ drop k X"
proof (induction k)
  case 0
  then show ?case by (simp add: for_pixels_def)
next
  case (Suc k)
  let ?Y = "map (\<lambda>p. f p (X ! p)) [0..<k] @ drop k X"
  have before: "for_pixels k f X = ?Y" using Suc by simp
  have "for_pixels (Suc k) f X = (for_pixels k f X)[k := f k (for_pixels k f X ! k)]"
    by (simp add: for_pixels_def)
  also have "\<dots> = ?Y[k := f k (?Y ! k)]" by (simp only: before)
  also have "?Y ! k = X ! k" using Suc.prems by (simp add: nth_append)
  also have "?Y[k := f k (X ! k)] = map (\<lambda>p. f p (X ! p)) [0..<k] @ (drop k X)[0 := f k (X ! k)]"
    by (simp add: list_update_append)
  also have "drop k X = X ! k # drop (Suc k) X"
    using Suc.prems by (simp add: Cons_nth_drop_Suc)
  finally show ?case by simp
qed



lemma length_resize: "length (resize X n v) = n"
  by (simp add: resize_def)

lemma prepare_buffers_sizes:
  "length (buffer (prepare_buffers d)) = unat (pixels d)
   \<and> length (formatted_spectrum (prepare_buffers d)) = unat (pixels d)
   \<and> pixels (prepare_buffers d) = pixels d"
  by (simp add: prepare_buffers_def Let_def length_resize for_pixels_result)

lemma length_for_pixels: "length (for_pixels k f X) = length X"
  by (induction k) (simp_all add: for_pixels_def)







lemma replicate_2: "replicate 2 x = [x, x]"
  by (simp add: numeral_2_eq_2)




text \<open>
  The states the program produces: the constructor and \<^verbatim>\<open>read_pixels\<close> leave
  \<^verbatim>\<open>formatted_spectrum\<close> empty, and every call of \<^verbatim>\<open>read_spectrum\<close> that returns leaves
  it with \<open>pixels\<close> elements and \<open>pixels\<close> as it was.
\<close>

lemma receivable_Device_new: "receivable ((Device_new i)\<lparr>pixels := p\<rparr>)"
  by (simp add: receivable_def Device_new_def)

lemma fill_loop_length: "fill_loop i stop average X = Inr X' \<Longrightarrow> length X' = length X"
proof (induction i stop average X rule: fill_loop.induct)
  case (1 i stop average X)
  show ?case
  proof (cases "i < stop")
    case False
    then show ?thesis using "1.prems" by (simp add: fill_loop.simps [of i])
  next
    case True
    then have inside: "unat i < length X"
      using "1.prems" by (cases "unat i < length X") (simp_all add: fill_loop.simps [of i] store_at_def)
    then have "fill_loop (i + 1) stop average (X[unat i := average]) = Inr X'"
      using True "1.prems" by (simp add: fill_loop.simps [of i] store_at_def)
    then have "length X' = length (X[unat i := average])"
      using True inside by (intro "1.IH") (simp_all add: store_at_def)
    then show ?thesis by simp
  qed
qed

lemma plateau_length: "plateau first stop boxcar X = Inr X' \<Longrightarrow> length X' = length X"
  by (auto simp add: plateau_def fill_loop_length split: sum.splits)

lemma center_loop_result_length:
  assumes run: "center_loop i n boxcar X = Some r"
  shows "\<forall>X'. r = Inr X' \<longrightarrow> length X' = length X"
proof (rule center_loop.raw_induct
    [where P = "\<lambda>i n boxcar X r. \<forall>X'. r = Inr X' \<longrightarrow> length X' = length X", OF _ run],
    goal_cases)
  case (1 loop i n boxcar X r)
  show ?case
  proof (cases "i < n - boxcar")
    case False
    then show ?thesis using 1(2) by auto
  next
    case True
    show ?thesis
    proof (intro allI impI)
      fix X' assume r: "r = Inr X'"
      obtain Y where "loop (i + 1) n boxcar Y = Some (Inr X')" and "length Y = length X"
        using 1(2) True r
        by (auto simp add: elem_at_def store_at_def split: sum.splits option.splits if_splits)
      then show "length X' = length X"
        using 1(1) by fastforce
    qed
  qed
qed

lemma center_loop_length: "center_loop i n boxcar X = Some (Inr X') \<Longrightarrow> length X' = length X"
  using center_loop_result_length by blast

lemma average_vector_length:
  "average_vector X boxcar = Some (Inr (returned, X')) \<Longrightarrow> length X' = length X"
  by (auto simp add: average_vector_def Let_def center_loop_length plateau_length
      split: if_splits option.splits sum.splits dest!: center_loop_length plateau_length)

lemma scan_loop_sizes:
  assumes "scan_loop serial spectrum scan scans_to_average d = Inr d'"
    and "length (formatted_spectrum d) = unat (pixels d)"
  shows "pixels d' = pixels d \<and> length (formatted_spectrum d') = unat (pixels d)"
  using assms
proof (induction "unat scans_to_average - unat scan" arbitrary: scan d)
  case 0
  then have "\<not> scan < scans_to_average" by (simp add: word_less_nat_alt)
  then show ?case using 0 by (simp add: scan_loop.simps [of serial spectrum scan])
next
  case (Suc k)
  show ?case
  proof (cases "scan < scans_to_average")
    case False
    then show ?thesis using Suc.prems by (simp add: scan_loop.simps [of serial spectrum scan])
  next
    case True
    have "unat (scan + 1) = Suc (unat scan)" using True by (rule unat_succ_below)
    then have k: "k = unat scans_to_average - unat (scan + 1)" using Suc.hyps(2) by simp
    obtain next_d where next_d: "scan_loop serial spectrum (scan + 1) scans_to_average next_d = Inr d'"
      and same: "pixels next_d = pixels d"
        "length (formatted_spectrum next_d) = length (formatted_spectrum d)"
      using True Suc.prems(1)
      by (auto simp add: scan_loop.simps [of serial spectrum scan] Let_def length_for_pixels
          split: prod.splits sum.splits)
    have "pixels d' = pixels next_d \<and> length (formatted_spectrum d') = unat (pixels next_d)"
      using k next_d same Suc.prems(2) by (intro Suc.hyps(1)) simp_all
    then show ?thesis using same by simp
  qed
qed

lemma receivable_after_read_spectrum:
  assumes "read_spectrum serial spectrum scans_to_average boxcar_width d = Some (Inr (returned, d'))"
  shows "pixels d' = pixels d \<and> receivable d'"
proof -
  obtain d1 where d1: "average_scans serial spectrum scans_to_average d = Inr d1"
    using assms by (auto simp add: read_spectrum_def split: sum.splits)
  then obtain d0 where d0: "scan_loop serial spectrum 0 scans_to_average (prepare_buffers d) = Inr d0"
    and d1_eq: "d1 = d0\<lparr>formatted_spectrum :=
         for_pixels (unat (pixels d0)) (\<lambda>pixel x. x * (1 / real (unat scans_to_average)))
           (formatted_spectrum d0)\<rparr>"
    by (auto simp add: average_scans_def Let_def split: sum.splits)
  have "pixels d0 = pixels (prepare_buffers d)
      \<and> length (formatted_spectrum d0) = unat (pixels (prepare_buffers d))"
    using d0 by (rule scan_loop_sizes) (simp add: prepare_buffers_sizes)
  then have sizes: "pixels d1 = pixels d" "length (formatted_spectrum d1) = unat (pixels d)"
    using d1_eq by (simp_all add: prepare_buffers_sizes length_for_pixels)
  obtain X where X: "average_vector (formatted_spectrum d1) boxcar_width = Some (Inr (True, X)) \<or>
      average_vector (formatted_spectrum d1) boxcar_width = Some (Inr (False, X))"
    and d': "d' = d1\<lparr>formatted_spectrum := X\<rparr>"
    using assms d1 by (auto simp add: read_spectrum_def split: sum.splits option.splits)
  have "length X = length (formatted_spectrum d1)"
    using X average_vector_length by blast
  then show ?thesis using d' sizes by (simp add: receivable_def)
qed

text \<open>
  The condition on the prior state is needed: \<^verbatim>\<open>resize\<close> keeps the elements that are
  there, so that an accumulation buffer of another size that is not empty, which no call
  of the program leaves, would keep them. For three pixels, a prior \<open>[5]\<close> is prepared
  to \<open>[5, 0, 0]\<close>.
\<close>

lemma prepare_buffers_keeps_other_sizes:
  "\<not> receivable stale_device \<and> formatted_spectrum (prepare_buffers stale_device) = [5, 0, 0]"
  by (simp add: receivable_def stale_device_def Device_new_def prepare_buffers_def resize_def
      replicate_2 Let_def)

section \<open>Properties of the acquisition controller\<close>

text \<open>
  Claim C9. The unit of the sleep depends on the configured delay alone: 0.05 s is
  slept in milliseconds, 30 s in seconds, 700 s in minutes; 10 s is still slept in
  milliseconds and every longer delay up to 600 s in seconds; 600 s is still slept in
  seconds and every longer delay in minutes.
\<close>

theorem post_scans_sleep_unit:
  "fst (post_scans_sleep_for 0.05) = Milliseconds
   \<and> fst (post_scans_sleep_for 30) = Seconds
   \<and> fst (post_scans_sleep_for 700) = Minutes
   \<and> fst (post_scans_sleep_for 10) = Milliseconds
   \<and> fst (post_scans_sleep_for 600) = Seconds
   \<and> (\<forall>t. (fst (post_scans_sleep_for t) = Milliseconds) = (t \<le> 10))
   \<and> (\<forall>t. (fst (post_scans_sleep_for t) = Seconds) = (10 < t \<and> t \<le> 600))
   \<and> (\<forall>t. (fst (post_scans_sleep_for t) = Minutes) = (600 < t))"
  by (simp add: post_scans_sleep_for_def)

lemmas split_eval = split_string_def split_loop.simps find_char.simps
lemmas atof_eval = ieee_atof_def read_mantissa_def is_space_def is_digit_def is_hex_digit_def
  digits_value_def hex_digits_value_def hex_digit_value_def same_letter_def
lemmas micro_eval = micro_seconds_def ieee_def atof_eval round_eval trunc_def
lemmas pre_eval = pre_integration_times_def pad_loop.simps convert_loop.simps elem_at_def

lemma split_loop_keeps_array: "array \<noteq> [] \<Longrightarrow> split_loop s delimiter i array \<noteq> []"
proof (induction s delimiter i array rule: split_loop.induct)
  case (1 s delimiter i array)
  show ?case
  proof (cases "find_char s delimiter i")
    case None
    then show ?thesis using "1.prems" by (simp add: split_loop.simps [of s delimiter i])
  next
    case (Some j)
    then show ?thesis
      using "1.prems" "1.IH" [of j] by (simp add: split_loop.simps [of s delimiter i])
  qed
qed

lemma split_string_nonempty: "s \<noteq> [] \<Longrightarrow> split_string s delimiter \<noteq> []"
  by (cases "find_char s delimiter 0")
     (simp_all add: split_string_def split_loop.simps [of s delimiter 0] split_loop_keeps_array)

lemma find_char_Some:
  "find_char s delimiter pos = Some j \<Longrightarrow>
     s ! j = delimiter \<and> (\<forall>k. pos \<le> k \<and> k < j \<longrightarrow> s ! k \<noteq> delimiter)"
proof (induction s delimiter pos rule: find_char.induct)
  case (1 s delimiter pos)
  show ?case
  proof (cases "pos < length s \<and> s ! pos \<noteq> delimiter")
    case True
    then have next_one: "find_char s delimiter (pos + 1) = Some j"
      using "1.prems" by (simp add: find_char.simps [of s delimiter pos])
    then have "s ! j = delimiter \<and> (\<forall>k. pos + 1 \<le> k \<and> k < j \<longrightarrow> s ! k \<noteq> delimiter)"
      using True "1.IH" by simp
    moreover have "\<And>k. pos \<le> k \<Longrightarrow> k = pos \<or> pos + 1 \<le> k" by auto
    ultimately show ?thesis using True by blast
  next
    case False
    then have "j = pos \<and> s ! pos = delimiter"
      using "1.prems" by (auto simp add: find_char.simps [of s delimiter pos] split: if_splits)
    then show ?thesis by auto
  qed
qed

lemma find_char_None:
  "find_char s delimiter pos = None \<Longrightarrow>
     \<forall>k. pos \<le> k \<and> k < length s \<longrightarrow> s ! k \<noteq> delimiter"
proof (induction s delimiter pos rule: find_char.induct)
  case (1 s delimiter pos)
  show ?case
  proof (cases "pos < length s")
    case True
    then have here: "s ! pos \<noteq> delimiter" and "find_char s delimiter (pos + 1) = None"
      using "1.prems" by (auto simp add: find_char.simps [of s delimiter pos] split: if_splits)
    then have "\<forall>k. pos + 1 \<le> k \<and> k < length s \<longrightarrow> s ! k \<noteq> delimiter"
      using True "1.IH" by simp
    moreover have "\<And>k. pos \<le> k \<Longrightarrow> k = pos \<or> pos + 1 \<le> k" by auto
    ultimately show ?thesis using here by blast
  next
    case False
    then show ?thesis by auto
  qed
qed

lemma drop_split_at:
  assumes "i \<le> j" and "j < length s"
  shows "drop i s = take (j - i) (drop i s) @ s ! j # drop (j + 1) s"
proof -
  have "drop i s = take (j - i) (drop i s) @ drop (j - i) (drop i s)"
    by (rule append_take_drop_id [symmetric])
  also have "drop (j - i) (drop i s) = drop j s" using assms(1) by simp
  also have "drop j s = s ! j # drop (j + 1) s" using assms(2) by (simp add: Cons_nth_drop_Suc)
  finally show ?thesis .
qed

lemma split_loop_pieces:
  assumes "i \<le> length s"
  shows "\<exists>pieces. split_loop s delimiter i array = array @ pieces
    \<and> (\<forall>piece \<in> set pieces. delimiter \<notin> set piece)
    \<and> concat (map (\<lambda>piece. piece @ [delimiter]) pieces) =
        (if i = length s then [] else if last s = delimiter then drop i s
         else drop i s @ [delimiter])"
  using assms
proof (induction s delimiter i array rule: split_loop.induct)
  case (1 s delimiter i array)
  show ?case
  proof (cases "i < length s")
    case False
    then have "split_loop s delimiter i array = array"
      by (subst split_loop.simps) simp
    then show ?thesis using False "1.prems" by simp
  next
    case inside: True
    then have "s \<noteq> []" by auto
    then have last_s: "last s = s ! (length s - 1)" by (rule last_conv_nth)
    show ?thesis
    proof (cases "find_char s delimiter i")
      case None
      then have none: "\<forall>k. i \<le> k \<and> k < length s \<longrightarrow> s ! k \<noteq> delimiter"
        by (rule find_char_None)
      have "delimiter \<notin> set (drop i s)"
      proof
        assume "delimiter \<in> set (drop i s)"
        then obtain k where "k < length (drop i s)" and "drop i s ! k = delimiter"
          by (auto simp add: in_set_conv_nth)
        then have "i \<le> i + k \<and> i + k < length s" and "s ! (i + k) = delimiter" by auto
        then show False using none by blast
      qed
      moreover have "i \<le> length s - 1 \<and> length s - 1 < length s" using inside by auto
      then have "last s \<noteq> delimiter" using none last_s by metis
      moreover have "split_loop s delimiter i array = array @ [drop i s]"
        using inside None by (simp add: split_loop.simps [of s delimiter i])
      ultimately show ?thesis using inside by simp
    next
      case (Some j)
      then have bounds: "i \<le> j" "j < length s" using find_char_bounds by blast+
      have found: "s ! j = delimiter" and before: "\<forall>k. i \<le> k \<and> k < j \<longrightarrow> s ! k \<noteq> delimiter"
        using find_char_Some [OF Some] by blast+
      let ?piece = "take (j - i) (drop i s)"
      have clean: "delimiter \<notin> set ?piece"
      proof
        assume "delimiter \<in> set ?piece"
        then obtain k where "k < length ?piece" and "?piece ! k = delimiter"
          by (auto simp add: in_set_conv_nth)
        then have "i \<le> i + k \<and> i + k < j" and "s ! (i + k) = delimiter"
          using bounds by auto
        then show False using before by blast
      qed
      have step: "split_loop s delimiter i array = split_loop s delimiter (j + 1) (array @ [?piece])"
        using inside Some by (simp add: split_loop.simps [of s delimiter i])
      obtain pieces where pieces:
        "split_loop s delimiter (j + 1) (array @ [?piece]) = (array @ [?piece]) @ pieces"
        "\<forall>piece \<in> set pieces. delimiter \<notin> set piece"
        "concat (map (\<lambda>piece. piece @ [delimiter]) pieces) =
          (if j + 1 = length s then [] else if last s = delimiter then drop (j + 1) s
           else drop (j + 1) s @ [delimiter])"
        using "1.IH" [OF inside Some] bounds by auto
      have whole: "drop i s = ?piece @ delimiter # drop (j + 1) s"
        using drop_split_at [OF bounds] found by simp
      have joined: "concat (map (\<lambda>piece. piece @ [delimiter]) (?piece # pieces)) =
          (if last s = delimiter then drop i s else drop i s @ [delimiter])"
      proof (cases "j + 1 = length s")
        case True
        then have "length s - 1 = j" by simp
        then have "last s = delimiter" using found last_s by simp
        moreover have "drop (j + 1) s = []" using True by simp
        ultimately show ?thesis using pieces(3) True whole by simp
      next
        case False
        then show ?thesis using pieces(3) whole by simp
      qed
      have "split_loop s delimiter i array = array @ (?piece # pieces)"
        using step pieces(1) by simp
      moreover have "\<forall>piece \<in> set (?piece # pieces). delimiter \<notin> set piece"
        using clean pieces(2) by simp
      ultimately show ?thesis using joined inside by (intro exI [of _ "?piece # pieces"]) simp
    qed
  qed
qed

lemma split_string_pieces:
  "(\<forall>piece \<in> set (split_string s delimiter). delimiter \<notin> set piece)
   \<and> concat (map (\<lambda>piece. piece @ [delimiter]) (split_string s delimiter)) =
       (if s = [] then [] else if last s = delimiter then s else s @ [delimiter])"
  using split_loop_pieces [of 0 s delimiter "[]"] by (auto simp add: split_string_def)


lemma pad_loop_result:
  "unat (n - 1) < length str_arr \<Longrightarrow>
     pad_loop i devices n str_arr =
       Inr (str_arr @ replicate (devices - i) (str_arr ! unat (n - 1)))"
proof (induction i devices n str_arr rule: pad_loop.induct)
  case (1 i devices n str_arr)
  let ?v = "str_arr ! unat (n - 1)"
  show ?case
  proof (cases "i < devices")
    case True
    have "pad_loop i devices n str_arr = pad_loop (i + 1) devices n (str_arr @ [?v])"
      using True "1.prems" by (simp add: pad_loop.simps [of i] elem_at_def)
    also have "\<dots> = Inr ((str_arr @ [?v]) @ replicate (devices - (i + 1))
                          ((str_arr @ [?v]) ! unat (n - 1)))"
      using True "1.prems" by (intro "1.IH") (simp_all add: elem_at_def)
    also have "(str_arr @ [?v]) ! unat (n - 1) = ?v"
      using "1.prems" by (simp add: nth_append)
    also have "(str_arr @ [?v]) @ replicate (devices - (i + 1)) ?v
        = str_arr @ replicate (Suc (devices - (i + 1))) ?v"
      by simp
    also have "Suc (devices - (i + 1)) = devices - i" using True by simp
    finally show ?thesis .
  next
    case False
    then show ?thesis by (simp add: pad_loop.simps [of i])
  qed
qed

lemma convert_loop_result:
  assumes "devices \<le> length str_arr"
    and "\<forall>k. i \<le> k \<and> k < devices \<longrightarrow> (\<exists>t_us. micro_seconds arith (str_arr ! k) = Inr t_us)"
  shows "convert_loop arith i devices str_arr integration_times =
    Inr (integration_times @ map (\<lambda>k. projr (micro_seconds arith (str_arr ! k))) [i..<devices])"
  using assms
proof (induction arith i devices str_arr integration_times rule: convert_loop.induct)
  case (1 arith i devices str_arr integration_times)
  show ?case
  proof (cases "i < devices")
    case True
    then obtain t_us where ok: "micro_seconds arith (str_arr ! i) = Inr t_us"
      using "1.prems"(2) by auto
    have "convert_loop arith i devices str_arr integration_times =
        convert_loop arith (i + 1) devices str_arr (integration_times @ [t_us])"
      using True "1.prems"(1) by (simp add: convert_loop.simps [of arith i] elem_at_def ok)
    also have "\<dots> = Inr ((integration_times @ [t_us])
        @ map (\<lambda>k. projr (micro_seconds arith (str_arr ! k))) [i + 1..<devices])"
      using True "1.prems" ok by (intro "1.IH") (simp_all add: elem_at_def)
    finally show ?thesis using True by (simp add: upt_conv_Cons ok)
  next
    case False
    then show ?thesis by (simp add: convert_loop.simps [of arith i])
  qed
qed

lemma map_nth_upt_take: "n \<le> length xs \<Longrightarrow> map (\<lambda>k. f (xs ! k)) [0..<n] = map f (take n xs)"
  by (intro nth_equalityI) simp_all

lemma pre_integration_times_result:
  assumes nonempty: "integration_time_str \<noteq> []" and few: "devices \<le> 16"
    and fits: "\<forall>str \<in> set (split_string integration_time_str CHR '':'').
           \<exists>t_us. micro_seconds arith str = Inr t_us"
  shows "pre_integration_times arith integration_time_str devices =
    Inr (map (\<lambda>str. projr (micro_seconds arith str))
          (spec_time_strings (split_string integration_time_str CHR '':'') devices))"
proof -
  let ?given = "split_string integration_time_str CHR '':''"
  let ?padded = "?given @ replicate (devices - length ?given) (last ?given)"
  let ?us = "\<lambda>str. projr (micro_seconds arith str)"
  have given: "?given \<noteq> []" using nonempty by (rule split_string_nonempty)
  have fits_padded: "\<forall>k < length ?padded. \<exists>t_us. micro_seconds arith (?padded ! k) = Inr t_us"
  proof (intro allI impI)
    fix k assume "k < length ?padded"
    then have "?padded ! k \<in> set ?padded" by (rule nth_mem)
    moreover have "set ?padded \<subseteq> set ?given" using given by auto
    ultimately show "\<exists>t_us. micro_seconds arith (?padded ! k) = Inr t_us"
      using fits by blast
  qed
  show ?thesis
  proof (cases "length ?given < devices")
    case True
    have small: "length ?given < 2 ^ 32" using True few by simp
    have "unat (word_of_nat (length ?given) :: unsigned) = length ?given"
      using small by (simp add: unat_of_nat)
    moreover from this have "(word_of_nat (length ?given) :: unsigned) \<noteq> 0"
      using given by auto
    ultimately have "unat (word_of_nat (length ?given) - 1 :: unsigned) = length ?given - 1"
      by (simp add: unat_minus_one)
    then have pad: "pad_loop (length ?given) devices (word_of_nat (length ?given)) ?given = Inr ?padded"
      using given by (simp add: pad_loop_result last_conv_nth)
    have size: "length ?padded = devices" using True by simp
    then have "convert_loop arith 0 devices ?padded [] =
        Inr ([] @ map (\<lambda>k. ?us (?padded ! k)) [0..<devices])"
      using fits_padded by (intro convert_loop_result) simp_all
    moreover have "map (\<lambda>k. ?us (?padded ! k)) [0..<devices] = map ?us (take devices ?padded)"
      using size by (intro map_nth_upt_take) simp
    ultimately have "convert_loop arith 0 devices ?padded [] = Inr (map ?us (take devices ?padded))"
      by simp
    then show ?thesis
      using True pad by (simp add: pre_integration_times_def spec_time_strings_def Let_def)
  next
    case False
    then have enough: "devices \<le> length ?given" by simp
    have "convert_loop arith 0 devices ?given [] =
        Inr ([] @ map (\<lambda>k. ?us (?given ! k)) [0..<devices])"
      using enough fits_padded by (intro convert_loop_result) (auto simp add: nth_append)
    moreover have "map (\<lambda>k. ?us (?given ! k)) [0..<devices] = map ?us (take devices ?given)"
      using enough by (intro map_nth_upt_take)
    ultimately have "convert_loop arith 0 devices ?given [] = Inr (map ?us (take devices ?given))"
      by simp
    then show ?thesis
      using False enough
      by (simp add: pre_integration_times_def spec_time_strings_def Let_def)
  qed
qed

lemma spec_time_strings_nth:
  assumes "given \<noteq> []" and "i < devices"
  shows "spec_time_strings given devices ! i = given ! min i (length given - 1)"
proof (cases "i < length given")
  case True
  then have "min i (length given - 1) = i" by simp
  then show ?thesis using True assms by (simp add: spec_time_strings_def nth_append)
next
  case False
  then have "min i (length given - 1) = length given - 1" by simp
  then show ?thesis
    using False assms by (simp add: spec_time_strings_def nth_append last_conv_nth)
qed

lemma micro_seconds_ieee_examples:
  "micro_seconds ieee ''0.001'' = Inr 1000"
  "micro_seconds ieee ''0.002'' = Inr 2000"
  "micro_seconds ieee ''0.000249'' = Inr 248"
  "micro_seconds ieee ''0.001001'' = Inr 1000"
  "micro_seconds ieee ''1e-3'' = Inr 1000"
  "micro_seconds ieee ''0x10'' = Inr 16000000"
  "micro_seconds ieee '' +2.5E2x'' = Inr 250000000"
  "micro_seconds ieee ''abc'' = Inr 0"
  "micro_seconds ieee ''-1'' = Inl Undefined"
  "micro_seconds ieee ''5000'' = Inl Undefined"
  "micro_seconds ieee ''inf'' = Inl Undefined"
  "micro_seconds ieee ''nan'' = Inl Undefined"
  by (simp_all add: micro_eval)

text \<open>
  Claim C3. \<^verbatim>\<open>Meter::pre\<close> splits the configuration string at each \<open>:\<close>: no piece
  holds a \<open>:\<close>, and the pieces, each followed by \<open>:\<close>, spell the string (with a \<open>:\<close>
  added when it does not end with one). In every arithmetic, for a non-empty string, at
  most 16 devices and given values whose conversion \<^verbatim>\<open>unsigned(atof(str) * 1e6)\<close> is
  defined, \<^verbatim>\<open>integration_times_micro_seconds\<close> ends with one entry per device: entry
  \<open>i\<close> is the conversion of the \<open>i\<close>-th value given, or of the last value given when
  fewer than \<open>i + 1\<close> were given. In binary64, \<open>0.001\<close> for 3 devices gives
  \<open>[1000, 1000, 1000]\<close> and \<open>0.001:0.002\<close> gives \<open>[1000, 2000, 2000]\<close>; the
  microseconds are those of the rounded product with the fraction dropped, so that
  \<open>0.000249:0.001001\<close> gives \<open>[248, 1000, 1000]\<close>; an exponent is read, so that
  \<open>1e-3\<close> gives 1000, and so is hexadecimal notation, \<open>0x10\<close> giving 16000000.
\<close>

theorem pre_integration_times_replicates_last:
  "(integration_time_str \<noteq> [] \<and> devices \<le> 16
      \<and> (\<forall>str \<in> set (split_string integration_time_str CHR '':'').
            \<exists>t_us. micro_seconds arith str = Inr t_us)
    \<longrightarrow> (\<exists>integration_times.
           pre_integration_times arith integration_time_str devices = Inr integration_times
           \<and> length integration_times = devices
           \<and> (\<forall>i < devices.
                 micro_seconds arith
                   (split_string integration_time_str CHR '':''
                      ! min i (length (split_string integration_time_str CHR '':'') - 1))
                 = Inr (integration_times ! i))))
   \<and> (\<forall>piece \<in> set (split_string s CHR '':''). CHR '':'' \<notin> set piece)
   \<and> concat (map (\<lambda>piece. piece @ '':'') (split_string s CHR '':'')) =
       (if s = [] then [] else if last s = CHR '':'' then s else s @ '':'')
   \<and> split_string ''0.001:0.002'' CHR '':'' = [''0.001'', ''0.002'']
   \<and> pre_integration_times ieee ''0.001'' 3 = Inr [1000, 1000, 1000]
   \<and> pre_integration_times ieee ''0.001:0.002'' 3 = Inr [1000, 2000, 2000]
   \<and> pre_integration_times ieee ''0.000249:0.001001'' 3 = Inr [248, 1000, 1000]
   \<and> pre_integration_times ieee ''1e-3'' 1 = Inr [1000]
   \<and> pre_integration_times ieee ''0x10'' 1 = Inr [16000000]"
proof (intro conjI impI)
  let ?given = "split_string integration_time_str CHR '':''"
  let ?us = "\<lambda>str. projr (micro_seconds arith str)"
  assume hyp: "integration_time_str \<noteq> [] \<and> devices \<le> 16
      \<and> (\<forall>str \<in> set ?given. \<exists>t_us. micro_seconds arith str = Inr t_us)"
  then have given: "?given \<noteq> []" by (simp add: split_string_nonempty)
  have run: "pre_integration_times arith integration_time_str devices =
      Inr (map ?us (spec_time_strings ?given devices))"
    using hyp by (intro pre_integration_times_result) simp_all
  have size: "length (map ?us (spec_time_strings ?given devices)) = devices"
    by (simp add: spec_time_strings_def)
  have "\<forall>i < devices. micro_seconds arith (?given ! min i (length ?given - 1))
      = Inr (map ?us (spec_time_strings ?given devices) ! i)"
  proof (intro allI impI)
    fix i assume i: "i < devices"
    have "0 < length ?given" using given by simp
    then have "min i (length ?given - 1) < length ?given" by arith
    then have "?given ! min i (length ?given - 1) \<in> set ?given" by (rule nth_mem)
    then obtain t_us where "micro_seconds arith (?given ! min i (length ?given - 1)) = Inr t_us"
      using hyp by blast
    then show "micro_seconds arith (?given ! min i (length ?given - 1))
      = Inr (map ?us (spec_time_strings ?given devices) ! i)"
      using given size i by (simp add: spec_time_strings_nth)
  qed
  then show "\<exists>integration_times.
           pre_integration_times arith integration_time_str devices = Inr integration_times
           \<and> length integration_times = devices
           \<and> (\<forall>i < devices.
                 micro_seconds arith (?given ! min i (length ?given - 1))
                 = Inr (integration_times ! i))"
    using run size by blast
next
  show "\<forall>piece \<in> set (split_string s CHR '':''). CHR '':'' \<notin> set piece"
    using split_string_pieces [of s "CHR '':''"] by blast
next
  show "concat (map (\<lambda>piece. piece @ '':'') (split_string s CHR '':'')) =
       (if s = [] then [] else if last s = CHR '':'' then s else s @ '':'')"
    using split_string_pieces [of s "CHR '':''"] by blast
next
  show "split_string ''0.001:0.002'' CHR '':'' = [''0.001'', ''0.002'']"
    by (simp add: split_eval)
next
  have "split_string ''0.001'' CHR '':'' = [''0.001'']" by (simp add: split_eval)
  then show "pre_integration_times ieee ''0.001'' 3 = Inr [1000, 1000, 1000]"
    by (simp add: pre_eval micro_seconds_ieee_examples)
next
  have "split_string ''0.001:0.002'' CHR '':'' = [''0.001'', ''0.002'']" by (simp add: split_eval)
  then show "pre_integration_times ieee ''0.001:0.002'' 3 = Inr [1000, 2000, 2000]"
    by (simp add: pre_eval micro_seconds_ieee_examples)
next
  have "split_string ''0.000249:0.001001'' CHR '':'' = [''0.000249'', ''0.001001'']"
    by (simp add: split_eval)
  then show "pre_integration_times ieee ''0.000249:0.001001'' 3 = Inr [248, 1000, 1000]"
    by (simp add: pre_eval micro_seconds_ieee_examples)
next
  have "split_string ''1e-3'' CHR '':'' = [''1e-3'']" by (simp add: split_eval)
  then show "pre_integration_times ieee ''1e-3'' 1 = Inr [1000]"
    by (simp add: pre_eval micro_seconds_ieee_examples)
next
  have "split_string ''0x10'' CHR '':'' = [''0x10'']" by (simp add: split_eval)
  then show "pre_integration_times ieee ''0x10'' 1 = Inr [16000000]"
    by (simp add: pre_eval micro_seconds_ieee_examples)
qed

theorem pre_integration_times_replicates_last_witness:
  "''0.25:0.5'' \<noteq> [] \<and> (4 :: nat) \<le> 16
   \<and> split_string ''0.25:0.5'' CHR '':'' = [''0.25'', ''0.5'']
   \<and> micro_seconds ieee ''0.25'' = Inr 250000 \<and> micro_seconds ieee ''0.5'' = Inr 500000
   \<and> (\<exists>integration_times.
         pre_integration_times ieee ''0.25:0.5'' 4 = Inr integration_times
         \<and> length integration_times = 4
         \<and> integration_times ! 0 = 250000 \<and> integration_times ! 1 = 500000
         \<and> integration_times ! 2 = 500000 \<and> integration_times ! 3 = 500000)"
proof -
  have given: "split_string ''0.25:0.5'' CHR '':'' = [''0.25'', ''0.5'']"
    by (simp add: split_eval)
  have micro: "micro_seconds ieee ''0.25'' = Inr 250000"
    "micro_seconds ieee ''0.5'' = Inr 500000"
    by (simp_all add: micro_eval)
  have "''0.25:0.5'' \<noteq> [] \<and> (4 :: nat) \<le> 16
      \<and> (\<forall>str \<in> set (split_string ''0.25:0.5'' CHR '':'').
            \<exists>t_us. micro_seconds ieee str = Inr t_us)"
    using micro by (simp add: given)
  then obtain integration_times
    where run: "pre_integration_times ieee ''0.25:0.5'' 4 = Inr integration_times"
    and size: "length integration_times = 4"
    and entries: "\<forall>i < 4. micro_seconds ieee
         (split_string ''0.25:0.5'' CHR '':''
            ! min i (length (split_string ''0.25:0.5'' CHR '':'') - 1))
       = Inr (integration_times ! i)"
    using pre_integration_times_replicates_last
      [where integration_time_str = "''0.25:0.5''" and devices = 4 and arith = ieee]
    by blast
  have "integration_times ! 0 = 250000" "integration_times ! 1 = 500000"
    "integration_times ! 2 = 500000" "integration_times ! 3 = 500000"
    using entries [rule_format, of 0] entries [rule_format, of 1]
      entries [rule_format, of 2] entries [rule_format, of 3] micro
    by (simp_all add: given)
  then show ?thesis using given micro run size by auto
qed

lemma post_loop_all_closed:
  "\<forall>device \<in> set devices. close (index device) = 0 \<Longrightarrow>
     post_loop close devices calls = (calls @ map index devices, Inr True)"
  by (induction devices arbitrary: calls) (simp_all add: check_for_error_def)

lemma post_loop_first_error:
  "\<forall>device \<in> set before. close (index device) = 0 \<Longrightarrow> close (index failing) \<noteq> 0 \<Longrightarrow>
     post_loop close (before @ failing # after) calls =
       (calls @ map index before @ [index failing], Inl (Exited (close (index failing)) 1))"
  by (induction before arbitrary: calls) (simp_all add: check_for_error_def)


text \<open>
  Claim C6, amended. \<^verbatim>\<open>Meter::post\<close> hands the devices to the driver's close in
  discovery order. When no close reports an error, every device is closed and
  \<^verbatim>\<open>post\<close> returns true. When a close reports an error, the devices before it have
  been closed, the error code is printed and the process exits with status 1: no
  device after it is handed to the driver.
\<close>

theorem post_stops_at_first_close_error:
  "((\<forall>device \<in> set devices. close (index device) = 0)
      \<longrightarrow> post close devices = (map index devices, Inr True))
   \<and> ((\<forall>device \<in> set before. close (index device) = 0) \<and> close (index failing) \<noteq> 0
      \<longrightarrow> post close (before @ failing # after) =
            (map index before @ [index failing], Inl (Exited (close (index failing)) 1)))"
  by (simp add: post_def post_loop_all_closed post_loop_first_error)

text \<open>
  Claim C6 as stated fails: with two devices and error 5 on closing device 0, the
  process exits after that call and device 1 is never handed to the driver's close.
\<close>

theorem post_close_error_leaves_device_open:
  "post first_close_fails [Device_new 0, Device_new 1] = ([0], Inl (Exited 5 1))
   \<and> index (Device_new 1) \<notin> set (fst (post first_close_fails [Device_new 0, Device_new 1]))"
  by (simp add: post_def first_close_fails_def Device_new_def check_for_error_def)

theorem post_stops_at_first_close_error_witness:
  "close_succeeds (index (Device_new 0)) = 0 \<and> close_succeeds (index (Device_new 1)) = 0
   \<and> post close_succeeds [Device_new 0, Device_new 1] = ([0, 1], Inr True)
   \<and> first_close_fails (index (Device_new 1)) = 0 \<and> first_close_fails (index (Device_new 0)) \<noteq> 0
   \<and> post first_close_fails [Device_new 1, Device_new 0, Device_new 2]
       = ([1, 0], Inl (Exited 5 1))"
proof -
  have ok: "\<forall>device \<in> set [Device_new 0, Device_new 1]. close_succeeds (index device) = 0"
    by (simp add: close_succeeds_def)
  have bad: "(\<forall>device \<in> set [Device_new 1]. first_close_fails (index device) = 0)
      \<and> first_close_fails (index (Device_new 0)) \<noteq> 0"
    by (simp add: first_close_fails_def Device_new_def)
  have "post close_succeeds [Device_new 0, Device_new 1]
      = (map index [Device_new 0, Device_new 1], Inr True)"
    using post_stops_at_first_close_error
      [where close = close_succeeds and devices = "[Device_new 0, Device_new 1]"] ok
    by blast
  moreover have "post first_close_fails ([Device_new 1] @ Device_new 0 # [Device_new 2])
      = (map index [Device_new 1] @ [index (Device_new 0)],
         Inl (Exited (first_close_fails (index (Device_new 0))) 1))"
    using post_stops_at_first_close_error
      [where close = first_close_fails and before = "[Device_new 1]"
         and failing = "Device_new 0" and after = "[Device_new 2]"] bad
    by blast
  ultimately show ?thesis
    using ok bad by (simp add: Device_new_def first_close_fails_def)
qed

end
